theory Spec2Isabelle
  imports Main "HOL-Library.Word"
begin

section \<open>Strings and parsed JSON values\<close>

text \<open>
  A JavaScript string is a sequence of 16-bit code units. String literals of the source
  are written \<open>lit ''...''\<close>; the two literals with characters outside ASCII are spelled
  out by their code units.
\<close>

type_synonym jschar = "16 word"
type_synonym jsstring = "jschar list"

definition lit :: "string \<Rightarrow> jsstring" where
  "lit s = map (\<lambda>c. of_nat (of_char c)) s"

text \<open>
  The values \<open>JSON.parse\<close> can return. Numbers stay abstract (type \<open>'n\<close>): the program
  only interpolates them into strings and tests them for truth. An object is the list of
  its own properties; a property that is absent reads as \<open>undefined\<close>, which is \<open>None\<close>
  of type \<open>'n json option\<close>.
\<close>

datatype 'n json =
    JNull
  | JBool bool
  | JNum 'n
  | JStr jsstring
  | JArr "'n json list"
  | JObj "(jsstring \<times> 'n json) list"

datatype error = SyntaxError | TypeError

text \<open>A throw ends the evaluation: what follows runs on a result only.\<close>

definition andThen :: "error + 'a \<Rightarrow> ('a \<Rightarrow> error + 'b) \<Rightarrow> error + 'b" where
  "andThen m f = (case m of Inl e \<Rightarrow> Inl e | Inr x \<Rightarrow> f x)"

text \<open>
  \<open>data.key\<close>: reading a property of \<open>null\<close> throws a TypeError; an object yields its own
  property or \<open>undefined\<close>; the other values (booleans, numbers, strings, arrays) have none
  of the property names this program reads, so they yield \<open>undefined\<close>.
\<close>

fun getProp :: "'n json \<Rightarrow> jsstring \<Rightarrow> error + 'n json option" where
  "getProp JNull k = Inl TypeError"
| "getProp (JObj kvs) k = Inr (map_of kvs k)"
| "getProp _ k = Inr None"

text \<open>Array.prototype.join with the separator \<open>,\<close> over pieces already converted.\<close>

fun join_comma :: "jsstring list \<Rightarrow> jsstring" where
  "join_comma [] = []"
| "join_comma [x] = x"
| "join_comma (x # y # ys) = x @ lit '','' @ join_comma (y # ys)"

text \<open>
  The string conversion of a template literal, \<open>${v}\<close>, for a value that came out of
  \<open>JSON.parse\<close>. An array joins its elements with commas, a \<open>null\<close> element giving the
  empty string. A plain object gives \<open>[object Object]\<close>, unless it has an own property
  named \<open>toString\<close>: a parsed value is never callable, so the conversion then finds no
  method that returns a primitive and throws a TypeError.
\<close>

fun ToStr :: "('n \<Rightarrow> jsstring) \<Rightarrow> 'n json \<Rightarrow> error + jsstring"
  and ToStrElems :: "('n \<Rightarrow> jsstring) \<Rightarrow> 'n json list \<Rightarrow> error + jsstring list" where
  "ToStr ns JNull = Inr (lit ''null'')"
| "ToStr ns (JBool b) = Inr (if b then lit ''true'' else lit ''false'')"
| "ToStr ns (JNum n) = Inr (ns n)"
| "ToStr ns (JStr s) = Inr s"
| "ToStr ns (JArr xs) =
     (case ToStrElems ns xs of Inl e \<Rightarrow> Inl e | Inr ss \<Rightarrow> Inr (join_comma ss))"
| "ToStr ns (JObj kvs) =
     (if map_of kvs (lit ''toString'') \<noteq> None then Inl TypeError
      else Inr (lit ''[object Object]''))"
| "ToStrElems ns [] = Inr []"
| "ToStrElems ns (x # xs) =
     (case (if x = JNull then Inr [] else ToStr ns x) of
        Inl e \<Rightarrow> Inl e
      | Inr s \<Rightarrow> (case ToStrElems ns xs of Inl e \<Rightarrow> Inl e | Inr ss \<Rightarrow> Inr (s # ss)))"

definition ToString :: "('n \<Rightarrow> jsstring) \<Rightarrow> 'n json option \<Rightarrow> error + jsstring" where
  "ToString ns v = (case v of None \<Rightarrow> Inr (lit ''undefined'') | Some x \<Rightarrow> ToStr ns x)"


text \<open>The test \<open>if (v)\<close> on a parsed value or \<open>undefined\<close>.\<close>

fun truthy :: "('n \<Rightarrow> bool) \<Rightarrow> 'n json option \<Rightarrow> bool" where
  "truthy nt None = False"
| "truthy nt (Some JNull) = False"
| "truthy nt (Some (JBool b)) = b"
| "truthy nt (Some (JNum n)) = nt n"
| "truthy nt (Some (JStr s)) = (s \<noteq> [])"
| "truthy nt (Some (JArr xs)) = True"
| "truthy nt (Some (JObj kvs)) = True"

text \<open>
  \<open>String.prototype.trim\<close> strips the white space and line terminator code units of
  ECMAScript from both ends.
\<close>

definition is_space :: "jschar \<Rightarrow> bool" where
  "is_space c \<longleftrightarrow>
     c \<in> {0x0009, 0x000A, 0x000B, 0x000C, 0x000D, 0x0020, 0x00A0, 0x1680,
          0x2028, 0x2029, 0x202F, 0x205F, 0x3000, 0xFEFF}
     \<or> (0x2000 \<le> c \<and> c \<le> 0x200A)"

definition trim :: "jsstring \<Rightarrow> jsstring" where
  "trim s = rev (dropWhile is_space (rev (dropWhile is_space s)))"

section \<open>escapeHtml\<close>

text \<open>
  \<open>escapeHtml\<close> stores its argument as the text of a fresh \<open>div\<close> and reads the
  \<open>innerHTML\<close> back. The setter of \<open>textContent\<close> takes \<open>null\<close> and \<open>undefined\<close> for the
  empty string and converts any other value to a string; the getter of \<open>innerHTML\<close>
  serialises the one text node, replacing \<open>&\<close>, the no-break space, \<open><\<close> and \<open>>\<close> by
  \<open>&amp;\<close>, \<open>&nbsp;\<close>, \<open>&lt;\<close> and \<open>&gt;\<close>.
\<close>

definition escapeChar :: "jschar \<Rightarrow> jsstring" where
  "escapeChar c =
     (if c = 0x26 then lit ''&amp;''
      else if c = 0xA0 then lit ''&nbsp;''
      else if c = 0x3C then lit ''&lt;''
      else if c = 0x3E then lit ''&gt;''
      else [c])"

definition escapeText :: "jsstring \<Rightarrow> jsstring" where
  "escapeText s = concat (map escapeChar s)"

definition escapeHtml :: "('n \<Rightarrow> jsstring) \<Rightarrow> 'n json option \<Rightarrow> error + jsstring" where
  "escapeHtml ns text =
     (case text of
        None \<Rightarrow> Inr []
      | Some JNull \<Rightarrow> Inr []
      | Some v \<Rightarrow> (case ToStr ns v of Inl e \<Rightarrow> Inl e | Inr s \<Rightarrow> Inr (escapeText s)))"

section \<open>The page: module variables, sockets, timers and the elements the script touches\<close>

text \<open>A \<open>div\<close> appended to the message list, with the string assigned to its \<open>innerHTML\<close>.\<close>

record child =
  className :: jsstring
  innerHTML :: jsstring

text \<open>
  What the script leaves to the browser is a parameter of the model: the JSON codec
  (\<open>JSON_parse\<close> returns \<open>None\<close> where \<open>JSON.parse\<close> throws a SyntaxError), the string
  form and the truth value of a number, the ISO form of the current time, the rendering
  of \<open>new Date(v).toLocaleTimeString([], {hour: '2-digit', minute: '2-digit'})\<close> in the
  user's locale, and the layout heights of the message list.
\<close>

record 'n env =
  JSON_parse :: "jsstring \<Rightarrow> 'n json option"
  JSON_stringify :: "'n json \<Rightarrow> jsstring"
  numToString :: "'n \<Rightarrow> jsstring"
  numTruthy :: "'n \<Rightarrow> bool"
  toISOString :: "nat \<Rightarrow> jsstring"
  toLocaleTimeString :: "'n json option \<Rightarrow> jsstring"
  scrollHeight :: "child list \<Rightarrow> nat"
  clientHeight :: nat

datatype readyState = CONNECTING | OPEN | CLOSING | CLOSED

text \<open>A WebSocket object: its \<open>readyState\<close> and the frames handed to \<open>send\<close>, oldest first.\<close>

record socket =
  readyState :: readyState
  sent :: "jsstring list"

text \<open>
  The two functions the script passes to \<open>setTimeout\<close>: \<open>connectWebSocket\<close> (line 25) and
  the arrow function that ends the typing status (lines 98 to 101).
\<close>

datatype callback = Reconnect | TypingOff

record timer =
  timer_id :: nat
  due :: nat
  callback :: callback

text \<open>
  The four module variables of lines 1 to 4 come first (\<open>ws\<close> is \<open>null\<close> or the index of a
  socket in \<open>sockets\<close>); then the browser's side: every socket constructed so far, the
  pending timers in the order they were set, the next timer id, the time in
  milliseconds, the alerts shown and the console lines; then the elements of the page by
  their ids. The page is taken to contain each element the script looks up.
\<close>

record state =
  ws :: "nat option"
  username :: jsstring
  typingTimeout :: "nat option"
  isTyping :: bool
  sockets :: "socket list"
  timers :: "timer list"
  nextTimer :: nat
  clock :: nat
  alerts :: "jsstring list"
  console :: "jsstring list"
  connectionStatus_textContent :: jsstring
  connectionStatus_className :: jsstring
  usernameInput_value :: jsstring
  userSetup_classList :: "jsstring list"
  chatInput_classList :: "jsstring list"
  messageInput_value :: jsstring
  messageInput_focused :: bool
  messageInput_listeners :: nat
  chatMessages_children :: "child list"
  chatMessages_scrollTop :: nat
  usersOnline_textContent :: jsstring
  typingIndicator_textContent :: jsstring
  typingIndicator_classList :: "jsstring list"

text \<open>\<open>classList.add\<close> and \<open>classList.remove\<close> on the ordered set of class tokens.\<close>

definition classList_add :: "jsstring \<Rightarrow> jsstring list \<Rightarrow> jsstring list" where
  "classList_add c cs = (if c \<in> set cs then cs else cs @ [c])"

definition classList_remove :: "jsstring \<Rightarrow> jsstring list \<Rightarrow> jsstring list" where
  "classList_remove c cs = filter (\<lambda>x. x \<noteq> c) cs"

text \<open>The guard \<open>ws && ws.readyState === WebSocket.OPEN\<close>.\<close>

definition ws_open :: "state \<Rightarrow> bool" where
  "ws_open st =
     (case ws st of
        None \<Rightarrow> False
      | Some i \<Rightarrow> i < length (sockets st) \<and> readyState (sockets st ! i) = OPEN)"

text \<open>
  \<open>ws.send(frame)\<close>. Every call of the source stands under the guard \<open>ws_open\<close>, where
  the frame is handed to the socket; outside it nothing is recorded.
\<close>

definition ws_send :: "state \<Rightarrow> jsstring \<Rightarrow> state" where
  "ws_send st frame =
     (case ws st of
        None \<Rightarrow> st
      | Some i \<Rightarrow>
          if i < length (sockets st) \<and> readyState (sockets st ! i) = OPEN
          then st\<lparr>sockets := (sockets st)[i := (sockets st ! i)\<lparr>sent := sent (sockets st ! i) @ [frame]\<rparr>]\<rparr>
          else st)"

text \<open>\<open>setTimeout(f, delay)\<close> returns a fresh id; \<open>clearTimeout\<close> of \<open>null\<close> or of an id that
  is not pending does nothing.\<close>

definition setTimeout :: "callback \<Rightarrow> nat \<Rightarrow> state \<Rightarrow> nat \<times> state" where
  "setTimeout f delay st =
     (nextTimer st,
      st\<lparr>timers := timers st @ [\<lparr>timer_id = nextTimer st, due = clock st + delay, callback = f\<rparr>],
         nextTimer := Suc (nextTimer st)\<rparr>)"

definition clearTimeout :: "nat option \<Rightarrow> state \<Rightarrow> state" where
  "clearTimeout h st =
     (case h of
        None \<Rightarrow> st
      | Some i \<Rightarrow> st\<lparr>timers := filter (\<lambda>t. timer_id t \<noteq> i) (timers st)\<rparr>)"


section \<open>The connection\<close>

definition updateConnectionStatus :: "bool \<Rightarrow> state \<Rightarrow> state" where
  "updateConnectionStatus connected st =
     (if connected
      then st\<lparr>connectionStatus_textContent := 0x25CF # lit '' Connected'',
              connectionStatus_className := lit ''connection-status status-connected''\<rparr>
      else st\<lparr>connectionStatus_textContent := 0x25CF # lit '' Disconnected'',
              connectionStatus_className := lit ''connection-status status-disconnected''\<rparr>)"

text \<open>
  \<open>connectWebSocket\<close> constructs a socket, which starts out connecting, and stores it in
  \<open>ws\<close>. The four handlers it assigns read and write the module variables only, so every
  socket carries the same four: \<open>ws_onopen\<close>, \<open>ws_onmessage\<close>, \<open>ws_onclose\<close> and
  \<open>ws_onerror\<close> below.
\<close>

definition connectWebSocket :: "state \<Rightarrow> state" where
  "connectWebSocket st =
     st\<lparr>sockets := sockets st @ [\<lparr>readyState = CONNECTING, sent = []\<rparr>],
        ws := Some (length (sockets st))\<rparr>"

definition ws_onopen :: "state \<Rightarrow> state" where
  "ws_onopen st =
     updateConnectionStatus True
       (st\<lparr>console := console st @ [lit ''Connected to WebSocket server'']\<rparr>)"

definition ws_onclose :: "state \<Rightarrow> state" where
  "ws_onclose st =
     snd (setTimeout Reconnect 3000
       (updateConnectionStatus False
         (st\<lparr>console := console st @ [lit ''Disconnected from WebSocket server'']\<rparr>)))"

definition ws_onerror :: "state \<Rightarrow> state" where
  "ws_onerror st =
     updateConnectionStatus False (st\<lparr>console := console st @ [lit ''WebSocket error:'']\<rparr>)"

section \<open>Sending\<close>

definition sendTypingStatus :: "'n env \<Rightarrow> bool \<Rightarrow> state \<Rightarrow> state" where
  "sendTypingStatus E typing st =
     (if ws_open st
      then ws_send st (JSON_stringify E (JObj
             [(lit ''type'', JStr (lit ''typing'')),
              (lit ''username'', JStr (username st)),
              (lit ''typing'', JBool typing)]))
      else st)"

definition sendMessage :: "'n env \<Rightarrow> state \<Rightarrow> state" where
  "sendMessage E st =
     (let messageText = trim (messageInput_value st) in
      if messageText = [] \<or> \<not> ws_open st then st
      else
        let st1 = ws_send st (JSON_stringify E (JObj
                    [(lit ''type'', JStr (lit ''message'')),
                     (lit ''username'', JStr (username st)),
                     (lit ''content'', JStr messageText),
                     (lit ''timestamp'', JStr (toISOString E (clock st)))]));
            st2 = st1\<lparr>messageInput_value := []\<rparr>
        in if isTyping st2 then sendTypingStatus E False (st2\<lparr>isTyping := False\<rparr>) else st2)"

text \<open>
  The two listeners that \<open>setupEventListeners\<close> adds to the message input, and the
  function the second one hands to \<open>setTimeout\<close>. Each call of \<open>setupEventListeners\<close>
  adds one more pair of them.
\<close>

definition keypress_listener :: "'n env \<Rightarrow> jsstring \<Rightarrow> state \<Rightarrow> state" where
  "keypress_listener E key st = (if key = lit ''Enter'' then sendMessage E st else st)"

definition typing_timeout :: "'n env \<Rightarrow> state \<Rightarrow> state" where
  "typing_timeout E st = sendTypingStatus E False (st\<lparr>isTyping := False\<rparr>)"

definition input_listener :: "'n env \<Rightarrow> state \<Rightarrow> state" where
  "input_listener E st =
     (let st1 = (if \<not> isTyping st then sendTypingStatus E True (st\<lparr>isTyping := True\<rparr>) else st);
          st2 = clearTimeout (typingTimeout st1) st1;
          (h, st3) = setTimeout TypingOff 1000 st2
      in st3\<lparr>typingTimeout := Some h\<rparr>)"

definition setupEventListeners :: "state \<Rightarrow> state" where
  "setupEventListeners st = st\<lparr>messageInput_listeners := Suc (messageInput_listeners st)\<rparr>"

definition alert :: "jsstring \<Rightarrow> state \<Rightarrow> state" where
  "alert msg st = st\<lparr>alerts := alerts st @ [msg]\<rparr>"

definition joinChat :: "'n env \<Rightarrow> state \<Rightarrow> state" where
  "joinChat E st =
     (let enteredUsername = trim (usernameInput_value st) in
      if enteredUsername = [] then alert (lit ''Please enter a username'') st
      else if ws_open st then
        let st1 = st\<lparr>username := enteredUsername\<rparr>;
            st2 = ws_send st1 (JSON_stringify E (JObj
                    [(lit ''type'', JStr (lit ''join'')),
                     (lit ''username'', JStr (username st1)),
                     (lit ''timestamp'', JStr (toISOString E (clock st1)))]));
            st3 = st2\<lparr>userSetup_classList := classList_add (lit ''hidden'') (userSetup_classList st2),
                     chatInput_classList := classList_remove (lit ''hidden'') (chatInput_classList st2),
                     messageInput_focused := True\<rparr>
        in setupEventListeners st3
      else alert (lit ''Not connected to server. Please wait and try again.'') st)"


section \<open>Rendering inbound frames\<close>

definition appendMessage :: "'n env \<Rightarrow> child \<Rightarrow> state \<Rightarrow> state" where
  \<comment> \<open>\<open>appendChild\<close> on the message list, then \<open>scrollTop = scrollHeight\<close>, which the
      browser clamps to the largest scroll offset.\<close>
  "appendMessage E messageDiv st =
     (let cs = chatMessages_children st @ [messageDiv]
      in st\<lparr>chatMessages_children := cs,
            chatMessages_scrollTop := scrollHeight E cs - clientHeight E\<rparr>)"

text \<open>The template literal of line 187.\<close>

definition systemHTML :: "jsstring \<Rightarrow> jsstring" where
  "systemHTML text =
     lit ''<div class='' @ [0x22] @ lit ''message-content'' @ [0x22] @ lit ''>'' @ text @ lit ''</div>''"

definition displaySystemMessage :: "'n env \<Rightarrow> jsstring \<Rightarrow> state \<Rightarrow> state" where
  "displaySystemMessage E text st =
     appendMessage E \<lparr>className = lit ''message system'', innerHTML = systemHTML text\<rparr> st"

text \<open>
  \<open>new Date(v).toLocaleTimeString(...)\<close>: constructing the date converts an object or an
  array to a primitive, which throws where its string conversion throws; the text of the
  time is the environment's.
\<close>

definition formatTime :: "'n env \<Rightarrow> 'n json option \<Rightarrow> error + jsstring" where
  "formatTime E v =
     andThen (ToString (numToString E) v) (\<lambda>_. Inr (toLocaleTimeString E v))"

text \<open>
  The template literal of lines 173 to 177, with its line breaks and indentation. The
  author line is there for a message of another user only.
\<close>

definition messageHTML :: "jsstring \<Rightarrow> jsstring \<Rightarrow> jsstring \<Rightarrow> jsstring" where
  "messageHTML author content time =
     [0x0A] @ replicate 16 0x20 @ author
     @ [0x0A] @ replicate 16 0x20
     @ lit ''<div class='' @ [0x22] @ lit ''message-content'' @ [0x22] @ lit ''>'' @ content @ lit ''</div>''
     @ [0x0A] @ replicate 16 0x20
     @ lit ''<div class='' @ [0x22] @ lit ''message-time'' @ [0x22] @ lit ''>'' @ time @ lit ''</div>''
     @ [0x0A] @ replicate 12 0x20"

definition authorHTML :: "jsstring \<Rightarrow> jsstring" where
  "authorHTML name =
     lit ''<div class='' @ [0x22] @ lit ''message-author'' @ [0x22] @ lit ''>'' @ name @ lit ''</div>''"

definition displayMessage :: "'n env \<Rightarrow> 'n json \<Rightarrow> state \<Rightarrow> error + state" where
  "displayMessage E data st =
     andThen (getProp data (lit ''username'')) (\<lambda>u.
       let isOwnMessage = (u = Some (JStr (username st)));
           cls = lit ''message '' @ (if isOwnMessage then lit ''own'' else lit ''other'')
       in
       andThen (getProp data (lit ''timestamp'')) (\<lambda>ts.
       andThen (formatTime E ts) (\<lambda>time.
       andThen (if \<not> isOwnMessage
                then andThen (ToString (numToString E) u) (\<lambda>s. Inr (authorHTML s))
                else Inr []) (\<lambda>author.
       andThen (getProp data (lit ''content'')) (\<lambda>c.
       andThen (escapeHtml (numToString E) c) (\<lambda>content.
       Inr (appendMessage E \<lparr>className = cls, innerHTML = messageHTML author content time\<rparr> st)))))))"

definition updateUsersCount :: "'n env \<Rightarrow> 'n json option \<Rightarrow> state \<Rightarrow> error + state" where
  "updateUsersCount E count st =
     andThen (ToString (numToString E) count) (\<lambda>s.
       Inr (st\<lparr>usersOnline_textContent := [0xD83D, 0xDC65] @ lit '' Users online: '' @ s\<rparr>))"

definition handleTypingIndicator :: "'n env \<Rightarrow> 'n json \<Rightarrow> state \<Rightarrow> error + state" where
  "handleTypingIndicator E data st =
     andThen (getProp data (lit ''username'')) (\<lambda>u.
       if u \<noteq> Some (JStr (username st)) then
         andThen (getProp data (lit ''typing'')) (\<lambda>t.
           if truthy (numTruthy E) t then
             andThen (ToString (numToString E) u) (\<lambda>s.
               Inr (st\<lparr>typingIndicator_textContent := s @ lit '' is typing...'',
                       typingIndicator_classList :=
                         classList_remove (lit ''hidden'') (typingIndicator_classList st)\<rparr>))
           else
             Inr (st\<lparr>typingIndicator_classList :=
                        classList_add (lit ''hidden'') (typingIndicator_classList st)\<rparr>))
       else Inr st)"

text \<open>
  The \<open>switch\<close> compares \<open>data.type\<close> with each label by \<open>===\<close>, so only a string matches;
  there is no \<open>default\<close> label.
\<close>

definition handleMessage :: "'n env \<Rightarrow> 'n json \<Rightarrow> state \<Rightarrow> error + state" where
  "handleMessage E data st =
     andThen (getProp data (lit ''type'')) (\<lambda>ty.
       if ty = Some (JStr (lit ''message'')) then displayMessage E data st
       else if ty = Some (JStr (lit ''join'')) then
         andThen (getProp data (lit ''username'')) (\<lambda>u.
         andThen (ToString (numToString E) u) (\<lambda>s.
           Inr (displaySystemMessage E (s @ lit '' joined the chat'') st)))
       else if ty = Some (JStr (lit ''leave'')) then
         andThen (getProp data (lit ''username'')) (\<lambda>u.
         andThen (ToString (numToString E) u) (\<lambda>s.
           Inr (displaySystemMessage E (s @ lit '' left the chat'') st)))
       else if ty = Some (JStr (lit ''users_count'')) then
         andThen (getProp data (lit ''count'')) (\<lambda>c. updateUsersCount E c st)
       else if ty = Some (JStr (lit ''typing'')) then handleTypingIndicator E data st
       else Inr st)"

definition ws_onmessage :: "'n env \<Rightarrow> jsstring \<Rightarrow> state \<Rightarrow> error + state" where
  "ws_onmessage E event_data st =
     (case JSON_parse E event_data of
        None \<Rightarrow> Inl SyntaxError
      | Some data \<Rightarrow> handleMessage E data st)"

section \<open>Events\<close>

text \<open>
  What can happen to the page. \<open>DOMContentLoaded\<close> runs the listener of line 217. A socket,
  named by its index, opens, delivers a text frame, starts its closing handshake, or
  closes; a close that comes from a failure fires the error event just before the close
  event. \<open>Timeout i\<close> is the browser running the pending timer \<open>i\<close>, and \<open>Elapse d\<close> lets
  up to \<open>d\<close> milliseconds pass. The user edits the username field,
  edits the message field, which fires the input event, or presses a key in it. The
  script never calls \<open>joinChat\<close> itself: it and \<open>sendMessage\<close> are global functions for
  the page's markup to bind to its buttons, so a call of either is an event too.
\<close>

datatype event =
    DOMContentLoaded
  | Opened nat
  | Message nat jsstring
  | Closing nat
  | Closed nat bool
  | Timeout nat
  | Elapse nat
  | EditUsername jsstring
  | JoinChat
  | SendMessage
  | Input jsstring
  | KeyPress jsstring

definition set_readyState :: "nat \<Rightarrow> readyState \<Rightarrow> state \<Rightarrow> state" where
  "set_readyState i rs st = st\<lparr>sockets := (sockets st)[i := (sockets st ! i)\<lparr>readyState := rs\<rparr>]\<rparr>"

definition run_callback :: "'n env \<Rightarrow> callback \<Rightarrow> state \<Rightarrow> state" where
  "run_callback E f st = (case f of Reconnect \<Rightarrow> connectWebSocket st | TypingOff \<Rightarrow> typing_timeout E st)"

text \<open>
  The browser runs a timer when it is due: \<open>fire_timer\<close> runs the pending timer \<open>i\<close> once
  the clock has reached its due time, and time, which passes by \<open>elapse\<close>, does not pass
  the due time of a timer that is still pending.
\<close>

definition fire_timer :: "'n env \<Rightarrow> nat \<Rightarrow> state \<Rightarrow> state" where
  "fire_timer E i st =
     (case find (\<lambda>t. timer_id t = i) (timers st) of
        None \<Rightarrow> st
      | Some t \<Rightarrow>
          if due t \<le> clock st
          then run_callback E (callback t) (st\<lparr>timers := filter (\<lambda>t. timer_id t \<noteq> i) (timers st)\<rparr>)
          else st)"

fun until_due :: "nat \<Rightarrow> timer list \<Rightarrow> nat" where
  "until_due c [] = c"
| "until_due c (t # ts) = until_due (min c (due t)) ts"

definition elapse :: "nat \<Rightarrow> state \<Rightarrow> state" where
  "elapse d st = st\<lparr>clock := max (clock st) (until_due (clock st + d) (timers st))\<rparr>"

text \<open>
  One event. The result is \<open>Inl\<close> when a handler throws; every throw of this script
  comes before the handler has changed anything, so the page is then as it was.
\<close>

fun step :: "'n env \<Rightarrow> state \<Rightarrow> event \<Rightarrow> error + state" where
  "step E st DOMContentLoaded = Inr (connectWebSocket st)"
| "step E st (Opened i) =
     (if i < length (sockets st) \<and> readyState (sockets st ! i) = CONNECTING
      then Inr (ws_onopen (set_readyState i OPEN st)) else Inr st)"
| "step E st (Message i text) =
     (if i < length (sockets st) \<and> readyState (sockets st ! i) = OPEN
      then ws_onmessage E text st else Inr st)"
| "step E st (Closing i) =
     (if i < length (sockets st) \<and> readyState (sockets st ! i) = OPEN
      then Inr (set_readyState i CLOSING st) else Inr st)"
| "step E st (Closed i failed) =
     (if i < length (sockets st) \<and> readyState (sockets st ! i) \<noteq> CLOSED
      then let st1 = set_readyState i CLOSED st;
               st2 = (if failed then ws_onerror st1 else st1)
           in Inr (ws_onclose st2)
      else Inr st)"
| "step E st (Timeout i) = Inr (fire_timer E i st)"
| "step E st (Elapse d) = Inr (elapse d st)"
| "step E st (EditUsername s) = Inr (st\<lparr>usernameInput_value := s\<rparr>)"
| "step E st JoinChat = Inr (joinChat E st)"
| "step E st SendMessage = Inr (sendMessage E st)"
| "step E st (Input s) =
     Inr ((input_listener E ^^ messageInput_listeners st) (st\<lparr>messageInput_value := s\<rparr>))"
| "step E st (KeyPress key) =
     Inr ((keypress_listener E key ^^ messageInput_listeners st) st)"

fun run :: "'n env \<Rightarrow> state \<Rightarrow> event list \<Rightarrow> state" where
  "run E st [] = st"
| "run E st (e # es) = run E (case step E st e of Inl _ \<Rightarrow> st | Inr st' \<Rightarrow> st') es"

text \<open>
  The page before \<open>DOMContentLoaded\<close>: the module variables as lines 1 to 4 initialise
  them, no socket, no timer, no listener. What the markup puts into the elements is not
  the script's and stays open.
\<close>

definition initial :: "state \<Rightarrow> bool" where
  "initial st \<longleftrightarrow>
     ws st = None \<and> username st = [] \<and> typingTimeout st = None \<and> \<not> isTyping st \<and>
     sockets st = [] \<and> timers st = [] \<and> messageInput_listeners st = 0"


inductive reachable :: "'n env \<Rightarrow> state \<Rightarrow> bool" for E :: "'n env" where
  start: "initial st \<Longrightarrow> reachable E st"
| after: "reachable E st \<Longrightarrow> step E st ev = Inr st' \<Longrightarrow> reachable E st'"

section \<open>Properties\<close>



text \<open>
  The bookkeeping of timers: ids are handed out in increasing order, so the pending ones
  are distinct and below \<open>nextTimer\<close>, as is the id kept in \<open>typingTimeout\<close>; the pending
  typing timer, if any, is the one \<open>typingTimeout\<close> names; the typing flag is set only
  while such a timer is pending; and no pending timer is overdue.
\<close>

definition timers_inv :: "state \<Rightarrow> bool" where
  "timers_inv st \<longleftrightarrow>
     (\<forall>t \<in> set (timers st). timer_id t < nextTimer st) \<and>
     distinct (map timer_id (timers st)) \<and>
     (\<forall>i. typingTimeout st = Some i \<longrightarrow> i < nextTimer st) \<and>
     (\<forall>t \<in> set (timers st). callback t = TypingOff \<longrightarrow> typingTimeout st = Some (timer_id t)) \<and>
     (\<forall>t \<in> set (timers st). typingTimeout st = Some (timer_id t) \<longrightarrow> callback t = TypingOff) \<and>
     (isTyping st \<longrightarrow> (\<exists>t \<in> set (timers st). callback t = TypingOff)) \<and>
     (\<forall>t \<in> set (timers st). clock st \<le> due t)"

text \<open>What an inbound frame can change is on the page; these stay as they are.\<close>

definition same_script_state :: "state \<Rightarrow> state \<Rightarrow> bool" where
  "same_script_state st st' \<longleftrightarrow>
     ws st' = ws st \<and> username st' = username st \<and> typingTimeout st' = typingTimeout st \<and>
     isTyping st' = isTyping st \<and> sockets st' = sockets st \<and> timers st' = timers st \<and>
     nextTimer st' = nextTimer st \<and> clock st' = clock st \<and> alerts st' = alerts st \<and>
     messageInput_listeners st' = messageInput_listeners st"

text \<open>The three shapes of object the script serialises and sends.\<close>

definition outbound :: "'n env \<Rightarrow> jsstring \<Rightarrow> bool" where
  "outbound E frame \<longleftrightarrow>
     (\<exists>u t. frame = JSON_stringify E (JObj
        [(lit ''type'', JStr (lit ''join'')), (lit ''username'', JStr u), (lit ''timestamp'', JStr t)]))
   \<or> (\<exists>u c t. frame = JSON_stringify E (JObj
        [(lit ''type'', JStr (lit ''message'')), (lit ''username'', JStr u),
         (lit ''content'', JStr c), (lit ''timestamp'', JStr t)]))
   \<or> (\<exists>u b. frame = JSON_stringify E (JObj
        [(lit ''type'', JStr (lit ''typing'')), (lit ''username'', JStr u), (lit ''typing'', JBool b)]))"

definition frames_ok :: "'n env \<Rightarrow> state \<Rightarrow> bool" where
  "frames_ok E st \<longleftrightarrow> (\<forall>s \<in> set (sockets st). \<forall>f \<in> set (sent s). outbound E f)"

text \<open>
  A run of failures: socket \<open>k\<close> fails and closes, 3000 ms pass, the timer \<open>i\<close> set by its
  close handler runs, and so on with the next socket and the next timer.
\<close>

fun failures :: "nat \<Rightarrow> nat \<Rightarrow> nat \<Rightarrow> event list" where
  "failures k i 0 = []"
| "failures k i (Suc n) =
     Closed k True # Elapse 3000 # Timeout i # failures (Suc k) (Suc i) n"

section \<open>A page and an environment for the examples\<close>

text \<open>
  Numbers are naturals written in unary; the parser knows three texts; the serialiser
  writes \<open>key=value;\<close> for each property; every time renders as \<open>12:00\<close>.
\<close>

definition example_env :: "nat env" where
  "example_env =
     \<lparr>JSON_parse = (\<lambda>s.
        if s = lit ''null'' then Some JNull
        else if s = lit ''{}'' then Some (JObj [])
        else if s = lit ''[]'' then Some (JArr [])
        else None),
      JSON_stringify = (\<lambda>v. case v of
          JObj kvs \<Rightarrow> concat (map (\<lambda>(k, x). k @ lit ''='' @
            (case x of JStr s \<Rightarrow> s | JBool b \<Rightarrow> (if b then lit ''true'' else lit ''false'') | _ \<Rightarrow> [])
            @ lit '';'') kvs)
        | _ \<Rightarrow> []),
      numToString = (\<lambda>n. replicate n 0x31),
      numTruthy = (\<lambda>n. n \<noteq> 0),
      toISOString = (\<lambda>t. replicate t 0x31),
      toLocaleTimeString = (\<lambda>v. lit ''12:00''),
      scrollHeight = (\<lambda>cs. 20 * length cs),
      clientHeight = 100\<rparr>"

definition example_page :: state where
  "example_page =
     \<lparr>ws = None, username = [], typingTimeout = None, isTyping = False,
      sockets = [], timers = [], nextTimer = 1, clock = 0, alerts = [], console = [],
      connectionStatus_textContent = [], connectionStatus_className = [],
      usernameInput_value = [], userSetup_classList = [], chatInput_classList = [lit ''hidden''],
      messageInput_value = [], messageInput_focused = False, messageInput_listeners = 0,
      chatMessages_children = [], chatMessages_scrollTop = 0,
      usersOnline_textContent = [], typingIndicator_textContent = [],
      typingIndicator_classList = [lit ''hidden'']\<rparr>"

text \<open>The page has loaded, the socket has opened, and the user has joined as \<open>bob\<close>.\<close>

definition joined :: "event list" where
  "joined = [DOMContentLoaded, Opened 0, EditUsername (lit ''bob''), JoinChat]"

section \<open>Facts about the model\<close>

subsection \<open>String literals\<close>

lemma of_char_bound: "(of_char c :: nat) < 65536"
proof -
  have "(of_char c :: nat) mod 256 < 256" by (rule mod_less_divisor) simp
  then have "(of_char c :: nat) < 256" by (simp only: of_char_mod_256)
  then show ?thesis by linarith
qed

lemma code_unit_inj: "(of_nat (of_char c) :: jschar) = of_nat (of_char d) \<longleftrightarrow> c = d"
proof
  assume h: "(of_nat (of_char c) :: jschar) = of_nat (of_char d)"
  then have "unat (of_nat (of_char c) :: jschar) = unat (of_nat (of_char d) :: jschar)" by simp
  then have "(of_char c :: nat) = of_char d"
    using of_char_bound [of c] of_char_bound [of d]
    by (simp add: unat_of_nat take_bit_nat_eq_self)
  then show "c = d" by simp
qed simp

lemma lit_eq_iff [simp]: "lit s = lit t \<longleftrightarrow> s = t"
proof -
  have "inj (\<lambda>c. (of_nat (of_char c) :: jschar))"
    by (rule injI) (simp add: code_unit_inj)
  then show ?thesis unfolding lit_def by (simp add: inj_map_eq_map)
qed

lemma lit_Nil_iff [simp]: "lit s = [] \<longleftrightarrow> s = []" "[] = lit s \<longleftrightarrow> s = []"
  by (auto simp: lit_def)

lemma andThen_simps [simp]:
  "andThen (Inl e) f = Inl e" "andThen (Inr x) f = f x"
  by (simp_all add: andThen_def)

subsection \<open>Escaping and rendering\<close>






subsection \<open>What each operation leaves alone\<close>

lemma ws_send_fields [simp]:
  "timers (ws_send st f) = timers st" "nextTimer (ws_send st f) = nextTimer st"
  "typingTimeout (ws_send st f) = typingTimeout st" "isTyping (ws_send st f) = isTyping st"
  "clock (ws_send st f) = clock st" "alerts (ws_send st f) = alerts st"
  "ws (ws_send st f) = ws st" "username (ws_send st f) = username st"
  "messageInput_listeners (ws_send st f) = messageInput_listeners st"
  "length (sockets (ws_send st f)) = length (sockets st)"
  by (simp_all add: ws_send_def split: option.splits)

lemma sendTypingStatus_fields [simp]:
  "timers (sendTypingStatus E b st) = timers st" "nextTimer (sendTypingStatus E b st) = nextTimer st"
  "typingTimeout (sendTypingStatus E b st) = typingTimeout st"
  "isTyping (sendTypingStatus E b st) = isTyping st"
  "clock (sendTypingStatus E b st) = clock st" "alerts (sendTypingStatus E b st) = alerts st"
  "ws (sendTypingStatus E b st) = ws st" "username (sendTypingStatus E b st) = username st"
  "messageInput_listeners (sendTypingStatus E b st) = messageInput_listeners st"
  "length (sockets (sendTypingStatus E b st)) = length (sockets st)"
  by (simp_all add: sendTypingStatus_def)

lemma sendMessage_fields [simp]:
  "timers (sendMessage E st) = timers st" "nextTimer (sendMessage E st) = nextTimer st"
  "typingTimeout (sendMessage E st) = typingTimeout st"
  "clock (sendMessage E st) = clock st" "alerts (sendMessage E st) = alerts st"
  "ws (sendMessage E st) = ws st" "username (sendMessage E st) = username st"
  "messageInput_listeners (sendMessage E st) = messageInput_listeners st"
  "length (sockets (sendMessage E st)) = length (sockets st)"
  by (simp_all add: sendMessage_def Let_def)

lemma sendMessage_isTyping: "isTyping (sendMessage E st) \<Longrightarrow> isTyping st"
  by (simp add: sendMessage_def Let_def split: if_splits)

lemma timers_invI:
  assumes "\<And>t. t \<in> set (timers st) \<Longrightarrow> timer_id t < nextTimer st"
    and "distinct (map timer_id (timers st))"
    and "\<And>i. typingTimeout st = Some i \<Longrightarrow> i < nextTimer st"
    and "\<And>t. t \<in> set (timers st) \<Longrightarrow> callback t = TypingOff \<Longrightarrow> typingTimeout st = Some (timer_id t)"
    and "\<And>t. t \<in> set (timers st) \<Longrightarrow> typingTimeout st = Some (timer_id t) \<Longrightarrow> callback t = TypingOff"
    and "isTyping st \<Longrightarrow> \<exists>t \<in> set (timers st). callback t = TypingOff"
    and "\<And>t. t \<in> set (timers st) \<Longrightarrow> clock st \<le> due t"
  shows "timers_inv st"
  unfolding timers_inv_def using assms by blast

lemma timers_invD:
  assumes "timers_inv st"
  shows "\<forall>t \<in> set (timers st). timer_id t < nextTimer st"
    and "distinct (map timer_id (timers st))"
    and "\<forall>i. typingTimeout st = Some i \<longrightarrow> i < nextTimer st"
    and "\<forall>t \<in> set (timers st). callback t = TypingOff \<longrightarrow> typingTimeout st = Some (timer_id t)"
    and "\<forall>t \<in> set (timers st). typingTimeout st = Some (timer_id t) \<longrightarrow> callback t = TypingOff"
    and "isTyping st \<longrightarrow> (\<exists>t \<in> set (timers st). callback t = TypingOff)"
    and "\<forall>t \<in> set (timers st). clock st \<le> due t"
  using assms unfolding timers_inv_def by blast+

subsection \<open>The timer bookkeeping holds in every reachable state\<close>

lemma timers_inv_same:
  assumes inv: "timers_inv st"
    and ts: "timers st' = timers st" and nt: "nextTimer st' = nextTimer st"
    and tt: "typingTimeout st' = typingTimeout st" and flag: "isTyping st' \<Longrightarrow> isTyping st"
    and ck: "clock st' = clock st"
  shows "timers_inv st'"
proof (rule timers_invI)
  show "isTyping st' \<Longrightarrow> \<exists>t \<in> set (timers st'). callback t = TypingOff"
    unfolding ts using flag timers_invD(6) [OF inv] by blast
qed (use timers_invD [OF inv] in \<open>unfold ts nt tt ck, blast+\<close>)

lemma timers_inv_sendMessage:
  assumes "timers_inv st"
  shows "timers_inv (sendMessage E st)"
  using assms
proof (rule timers_inv_same)
  show "isTyping (sendMessage E st) \<Longrightarrow> isTyping st" by (rule sendMessage_isTyping)
qed simp_all

lemma timers_inv_keypress: "timers_inv st \<Longrightarrow> timers_inv (keypress_listener E k st)"
  unfolding keypress_listener_def by (cases "k = lit ''Enter''") (auto intro: timers_inv_sendMessage)

lemma input_listener_timers:
  "timers (input_listener E st) =
     filter (\<lambda>t. Some (timer_id t) \<noteq> typingTimeout st) (timers st)
     @ [\<lparr>timer_id = nextTimer st, due = clock st + 1000, callback = TypingOff\<rparr>]"
  by (cases "typingTimeout st") (simp_all add: input_listener_def clearTimeout_def setTimeout_def Let_def)

lemma input_listener_fields [simp]:
  "isTyping (input_listener E st)" "typingTimeout (input_listener E st) = Some (nextTimer st)"
  "nextTimer (input_listener E st) = Suc (nextTimer st)" "clock (input_listener E st) = clock st"
  "alerts (input_listener E st) = alerts st" "ws (input_listener E st) = ws st"
  "username (input_listener E st) = username st"
  "messageInput_listeners (input_listener E st) = messageInput_listeners st"
  "length (sockets (input_listener E st)) = length (sockets st)"
  by (simp_all add: input_listener_def clearTimeout_def setTimeout_def Let_def split: option.splits)

lemma timers_inv_input:
  assumes "timers_inv st"
  shows "timers_inv (input_listener E st)"
proof -
  let ?old = "filter (\<lambda>t. Some (timer_id t) \<noteq> typingTimeout st) (timers st)"
  let ?new = "\<lparr>timer_id = nextTimer st, due = clock st + 1000, callback = TypingOff\<rparr>"
  have below: "\<forall>t \<in> set (timers st). timer_id t < nextTimer st"
    and dist: "distinct (map timer_id (timers st))"
    and off: "\<forall>t \<in> set (timers st). callback t = TypingOff \<longrightarrow> typingTimeout st = Some (timer_id t)"
    using timers_invD [OF assms] by blast+
  have ts: "timers (input_listener E st) = ?old @ [?new]" by (rule input_listener_timers)
  have 1: "timer_id t < nextTimer st" if "t \<in> set ?old" for t using below that by simp
  have 2: "distinct (map timer_id ?old)" using dist by (simp add: distinct_map_filter)
  have 3: "callback t \<noteq> TypingOff" if "t \<in> set ?old" for t using off that by auto
  show ?thesis
  proof (rule timers_invI)
    fix t assume "t \<in> set (timers (input_listener E st))"
    then have "t \<in> set ?old \<or> t = ?new" unfolding ts by auto
    then show "timer_id t < nextTimer (input_listener E st)"
    proof
      assume "t \<in> set ?old"
      then have "timer_id t < nextTimer st" by (rule 1)
      then show ?thesis by simp
    next
      assume "t = ?new"
      then show ?thesis by simp
    qed
  next
    have "nextTimer st \<notin> timer_id ` set ?old"
    proof
      assume "nextTimer st \<in> timer_id ` set ?old"
      then obtain t where "t \<in> set ?old" and "timer_id t = nextTimer st" by auto
      with 1 [of t] show False by simp
    qed
    then show "distinct (map timer_id (timers (input_listener E st)))"
      unfolding ts using 2 by simp
  next
    fix i assume "typingTimeout (input_listener E st) = Some i"
    then show "i < nextTimer (input_listener E st)" by simp
  next
    fix t assume "t \<in> set (timers (input_listener E st))" and c: "callback t = TypingOff"
    then have "t \<in> set ?old \<or> t = ?new" unfolding ts by auto
    then show "typingTimeout (input_listener E st) = Some (timer_id t)"
    proof
      assume "t \<in> set ?old"
      then have "callback t \<noteq> TypingOff" by (rule 3)
      with c show ?thesis by simp
    next
      assume "t = ?new"
      then show ?thesis by simp
    qed
  next
    fix t assume "t \<in> set (timers (input_listener E st))"
      and n: "typingTimeout (input_listener E st) = Some (timer_id t)"
    then have disj: "t \<in> set ?old \<or> t = ?new" unfolding ts by auto
    have m: "timer_id t = nextTimer st" using n by simp
    from disj show "callback t = TypingOff"
    proof
      assume "t \<in> set ?old"
      then have "timer_id t < nextTimer st" by (rule 1)
      with m show ?thesis by simp
    next
      assume "t = ?new"
      then show ?thesis by simp
    qed
  next
    show "\<exists>t \<in> set (timers (input_listener E st)). callback t = TypingOff"
      unfolding ts by simp
  next
    fix t assume "t \<in> set (timers (input_listener E st))"
    then have "t \<in> set ?old \<or> t = ?new" unfolding ts by auto
    then show "clock (input_listener E st) \<le> due t"
    proof
      assume "t \<in> set ?old"
      then have "t \<in> set (timers st)" by simp
      then show ?thesis using timers_invD(7) [OF assms] by simp
    next
      assume "t = ?new"
      then show ?thesis by simp
    qed
  qed
qed

lemma funpow_invariant:
  assumes "\<And>s. P s \<Longrightarrow> P (f s)" and "P s"
  shows "P ((f ^^ n) s)"
  using assms by (induction n) simp_all

lemma find_timer:
  "find (\<lambda>t. timer_id t = i) ts = Some t \<Longrightarrow> t \<in> set ts \<and> timer_id t = i"
  by (induction ts) (auto split: if_splits)

lemma distinct_ids_unique:
  "distinct (map timer_id ts) \<Longrightarrow> t \<in> set ts \<Longrightarrow> u \<in> set ts \<Longrightarrow> timer_id t = timer_id u \<Longrightarrow> t = u"
  by (meson distinct_map inj_onD)

lemma timers_inv_remove:
  assumes inv: "timers_inv st"
    and ts: "timers st' = filter (\<lambda>t. timer_id t \<noteq> i) (timers st)"
    and nt: "nextTimer st' = nextTimer st"
    and tt: "typingTimeout st' = typingTimeout st"
    and flag: "isTyping st' \<Longrightarrow> \<exists>u \<in> set (timers st). callback u = TypingOff \<and> timer_id u \<noteq> i"
    and ck: "clock st' = clock st"
  shows "timers_inv st'"
proof (rule timers_invI)
  fix t assume "t \<in> set (timers st')"
  then have "t \<in> set (timers st)" unfolding ts by simp
  then show "timer_id t < nextTimer st'" unfolding nt using timers_invD(1) [OF inv] by blast
next
  show "distinct (map timer_id (timers st'))"
    unfolding ts using timers_invD(2) [OF inv] by (simp add: distinct_map_filter)
next
  fix j assume "typingTimeout st' = Some j"
  then show "j < nextTimer st'" unfolding nt tt using timers_invD(3) [OF inv] by blast
next
  fix t assume "t \<in> set (timers st')" and c: "callback t = TypingOff"
  then have "t \<in> set (timers st)" unfolding ts by simp
  with c show "typingTimeout st' = Some (timer_id t)"
    unfolding tt using timers_invD(4) [OF inv] by blast
next
  fix t assume "t \<in> set (timers st')" and n: "typingTimeout st' = Some (timer_id t)"
  then have "t \<in> set (timers st)" unfolding ts by simp
  with n show "callback t = TypingOff"
    unfolding tt using timers_invD(5) [OF inv] by blast
next
  assume "isTyping st'"
  then obtain u where "u \<in> set (timers st)" "callback u = TypingOff" "timer_id u \<noteq> i"
    using flag by blast
  then show "\<exists>t \<in> set (timers st'). callback t = TypingOff" unfolding ts by auto
next
  fix t assume "t \<in> set (timers st')"
  then have "t \<in> set (timers st)" unfolding ts by simp
  then show "clock st' \<le> due t" unfolding ck using timers_invD(7) [OF inv] by blast
qed

lemma fire_timer_cases:
  "fire_timer E i st = st \<or>
   (\<exists>t. t \<in> set (timers st) \<and> timer_id t = i \<and> due t \<le> clock st \<and>
        fire_timer E i st =
          run_callback E (callback t) (st\<lparr>timers := filter (\<lambda>u. timer_id u \<noteq> i) (timers st)\<rparr>))"
proof (cases "find (\<lambda>t. timer_id t = i) (timers st)")
  case None
  then show ?thesis by (simp add: fire_timer_def)
next
  case (Some t)
  then have "t \<in> set (timers st)" "timer_id t = i" using find_timer by blast+
  then show ?thesis using Some by (cases "due t \<le> clock st") (auto simp: fire_timer_def)
qed

lemma timers_inv_fire:
  assumes inv: "timers_inv st"
  shows "timers_inv (fire_timer E i st)"
proof -
  let ?st = "st\<lparr>timers := filter (\<lambda>u. timer_id u \<noteq> i) (timers st)\<rparr>"
  from fire_timer_cases [of E i st] show ?thesis
  proof
    assume "fire_timer E i st = st"
    then show ?thesis using inv by simp
  next
    assume "\<exists>t. t \<in> set (timers st) \<and> timer_id t = i \<and> due t \<le> clock st \<and>
        fire_timer E i st = run_callback E (callback t) ?st"
    then obtain t where t: "t \<in> set (timers st)" "timer_id t = i"
      and eq: "fire_timer E i st = run_callback E (callback t) ?st" by blast
    show ?thesis
    proof (cases "callback t")
      case Reconnect
      have eq': "fire_timer E i st = connectWebSocket ?st"
        using eq Reconnect by (simp add: run_callback_def)
      show ?thesis
        unfolding eq' using inv
      proof (rule timers_inv_remove)
        assume "isTyping (connectWebSocket ?st)"
        then have "isTyping st" by (simp add: connectWebSocket_def)
        then obtain u where u: "u \<in> set (timers st)" "callback u = TypingOff"
          using timers_invD(6) [OF inv] by blast
        with Reconnect have "u \<noteq> t" by auto
        then have "timer_id u \<noteq> i"
          using distinct_ids_unique [OF timers_invD(2) [OF inv] u(1) t(1)] t(2) by auto
        with u show "\<exists>u \<in> set (timers st). callback u = TypingOff \<and> timer_id u \<noteq> i" by blast
      qed (simp_all add: connectWebSocket_def)
    next
      case TypingOff
      have eq': "fire_timer E i st = typing_timeout E ?st"
        using eq TypingOff by (simp add: run_callback_def)
      show ?thesis
        unfolding eq' using inv
      proof (rule timers_inv_remove)
        assume "isTyping (typing_timeout E ?st)"
        then show "\<exists>u \<in> set (timers st). callback u = TypingOff \<and> timer_id u \<noteq> i"
          by (simp add: typing_timeout_def)
      qed (simp_all add: typing_timeout_def)
    qed
  qed
qed

lemma until_due_le: "until_due c ts \<le> c"
proof (induction ts arbitrary: c)
  case Nil
  then show ?case by simp
next
  case (Cons t ts)
  have "until_due (min c (due t)) ts \<le> min c (due t)" by (rule Cons.IH)
  then show ?case by simp
qed

lemma until_due_le_due: "t \<in> set ts \<Longrightarrow> until_due c ts \<le> due t"
proof (induction ts arbitrary: c)
  case Nil
  then show ?case by simp
next
  case (Cons u us)
  show ?case
  proof (cases "t = u")
    case True
    have "until_due (min c (due u)) us \<le> min c (due u)" by (rule until_due_le)
    then show ?thesis using True by simp
  next
    case False
    then show ?thesis using Cons by simp
  qed
qed

lemma elapse_fields [simp]:
  "timers (elapse d st) = timers st" "nextTimer (elapse d st) = nextTimer st"
  "typingTimeout (elapse d st) = typingTimeout st" "isTyping (elapse d st) = isTyping st"
  "sockets (elapse d st) = sockets st" "ws (elapse d st) = ws st"
  "alerts (elapse d st) = alerts st" "username (elapse d st) = username st"
  "messageInput_listeners (elapse d st) = messageInput_listeners st"
  by (simp_all add: elapse_def)

lemma timers_inv_elapse:
  assumes inv: "timers_inv st"
  shows "timers_inv (elapse d st)"
proof (rule timers_invI)
  fix t assume "t \<in> set (timers (elapse d st))"
  then have t: "t \<in> set (timers st)" by simp
  then have "clock st \<le> due t" using timers_invD(7) [OF inv] by blast
  moreover have "until_due (clock st + d) (timers st) \<le> due t" using t by (rule until_due_le_due)
  ultimately show "clock (elapse d st) \<le> due t" by (simp add: elapse_def)
qed (use timers_invD [OF inv] in \<open>unfold elapse_fields, blast+\<close>)

lemma ws_onclose_timers:
  "timers (ws_onclose st) =
     timers st @ [\<lparr>timer_id = nextTimer st, due = clock st + 3000, callback = Reconnect\<rparr>]"
  by (simp add: ws_onclose_def setTimeout_def updateConnectionStatus_def)

lemma ws_onclose_fields [simp]:
  "nextTimer (ws_onclose st) = Suc (nextTimer st)" "typingTimeout (ws_onclose st) = typingTimeout st"
  "isTyping (ws_onclose st) = isTyping st" "clock (ws_onclose st) = clock st"
  "sockets (ws_onclose st) = sockets st" "ws (ws_onclose st) = ws st"
  "alerts (ws_onclose st) = alerts st" "username (ws_onclose st) = username st"
  "messageInput_listeners (ws_onclose st) = messageInput_listeners st"
  by (simp_all add: ws_onclose_def setTimeout_def updateConnectionStatus_def)

lemma timers_inv_onclose:
  assumes inv: "timers_inv st"
  shows "timers_inv (ws_onclose st)"
proof (rule timers_invI)
  fix t assume "t \<in> set (timers (ws_onclose st))"
  then have "t \<in> set (timers st) \<or> timer_id t = nextTimer st"
    unfolding ws_onclose_timers by auto
  then show "timer_id t < nextTimer (ws_onclose st)"
    using timers_invD(1) [OF inv] by (auto simp: less_Suc_eq)
next
  have "nextTimer st \<notin> timer_id ` set (timers st)"
    using timers_invD(1) [OF inv] by fastforce
  then show "distinct (map timer_id (timers (ws_onclose st)))"
    unfolding ws_onclose_timers using timers_invD(2) [OF inv] by simp
next
  fix j assume "typingTimeout (ws_onclose st) = Some j"
  then have "j < nextTimer st" using timers_invD(3) [OF inv] by simp
  then show "j < nextTimer (ws_onclose st)" by simp
next
  fix t assume "t \<in> set (timers (ws_onclose st))" and c: "callback t = TypingOff"
  then have "t \<in> set (timers st)" unfolding ws_onclose_timers by auto
  with c show "typingTimeout (ws_onclose st) = Some (timer_id t)"
    using timers_invD(4) [OF inv] by simp
next
  fix t assume m: "t \<in> set (timers (ws_onclose st))"
    and n: "typingTimeout (ws_onclose st) = Some (timer_id t)"
  then have "timer_id t < nextTimer st" using timers_invD(3) [OF inv] by simp
  with m have "t \<in> set (timers st)" unfolding ws_onclose_timers by auto
  with n show "callback t = TypingOff" using timers_invD(5) [OF inv] by simp
next
  assume "isTyping (ws_onclose st)"
  then have "isTyping st" by simp
  then obtain u where "u \<in> set (timers st)" "callback u = TypingOff"
    using timers_invD(6) [OF inv] by blast
  then show "\<exists>t \<in> set (timers (ws_onclose st)). callback t = TypingOff"
    unfolding ws_onclose_timers by auto
next
  fix t assume "t \<in> set (timers (ws_onclose st))"
  then have "t \<in> set (timers st) \<or> due t = clock st + 3000"
    unfolding ws_onclose_timers by auto
  then show "clock (ws_onclose st) \<le> due t"
    using timers_invD(7) [OF inv] by auto
qed

lemma ws_onerror_fields [simp]:
  "timers (ws_onerror st) = timers st" "nextTimer (ws_onerror st) = nextTimer st"
  "typingTimeout (ws_onerror st) = typingTimeout st" "isTyping (ws_onerror st) = isTyping st"
  "clock (ws_onerror st) = clock st" "sockets (ws_onerror st) = sockets st" "ws (ws_onerror st) = ws st"
  "alerts (ws_onerror st) = alerts st" "username (ws_onerror st) = username st"
  "messageInput_listeners (ws_onerror st) = messageInput_listeners st"
  by (simp_all add: ws_onerror_def updateConnectionStatus_def)

lemma ws_onopen_fields [simp]:
  "timers (ws_onopen st) = timers st" "nextTimer (ws_onopen st) = nextTimer st"
  "typingTimeout (ws_onopen st) = typingTimeout st" "isTyping (ws_onopen st) = isTyping st"
  "clock (ws_onopen st) = clock st" "sockets (ws_onopen st) = sockets st" "ws (ws_onopen st) = ws st"
  "alerts (ws_onopen st) = alerts st" "username (ws_onopen st) = username st"
  "messageInput_listeners (ws_onopen st) = messageInput_listeners st"
  by (simp_all add: ws_onopen_def updateConnectionStatus_def)

lemma set_readyState_fields [simp]:
  "timers (set_readyState i r st) = timers st" "nextTimer (set_readyState i r st) = nextTimer st"
  "typingTimeout (set_readyState i r st) = typingTimeout st"
  "isTyping (set_readyState i r st) = isTyping st" "clock (set_readyState i r st) = clock st"
  "ws (set_readyState i r st) = ws st" "alerts (set_readyState i r st) = alerts st"
  "username (set_readyState i r st) = username st"
  "messageInput_listeners (set_readyState i r st) = messageInput_listeners st"
  "length (sockets (set_readyState i r st)) = length (sockets st)"
  by (simp_all add: set_readyState_def)

lemma connectWebSocket_fields [simp]:
  "timers (connectWebSocket st) = timers st" "nextTimer (connectWebSocket st) = nextTimer st"
  "typingTimeout (connectWebSocket st) = typingTimeout st"
  "isTyping (connectWebSocket st) = isTyping st" "clock (connectWebSocket st) = clock st"
  "alerts (connectWebSocket st) = alerts st" "username (connectWebSocket st) = username st"
  "messageInput_listeners (connectWebSocket st) = messageInput_listeners st"
  "ws (connectWebSocket st) = Some (length (sockets st))"
  "sockets (connectWebSocket st) = sockets st @ [\<lparr>readyState = CONNECTING, sent = []\<rparr>]"
  by (simp_all add: connectWebSocket_def)

lemma joinChat_fields [simp]:
  "timers (joinChat E st) = timers st" "nextTimer (joinChat E st) = nextTimer st"
  "typingTimeout (joinChat E st) = typingTimeout st" "isTyping (joinChat E st) = isTyping st"
  "clock (joinChat E st) = clock st" "ws (joinChat E st) = ws st"
  "length (sockets (joinChat E st)) = length (sockets st)"
  by (simp_all add: joinChat_def Let_def alert_def setupEventListeners_def)

lemma handleMessage_script_state:
  "handleMessage E data st = Inr st' \<Longrightarrow> same_script_state st st'"
  by (auto simp: handleMessage_def displayMessage_def handleTypingIndicator_def updateUsersCount_def
        displaySystemMessage_def appendMessage_def andThen_def Let_def same_script_state_def
        split: sum.splits if_splits)

lemma ws_onmessage_script_state:
  "ws_onmessage E frame st = Inr st' \<Longrightarrow> same_script_state st st'"
  by (auto simp: ws_onmessage_def split: option.splits dest: handleMessage_script_state)

lemma timers_inv_step:
  assumes "timers_inv st" and "step E st ev = Inr st'"
  shows "timers_inv st'"
proof (cases ev)
  case DOMContentLoaded
  with assms show ?thesis by (auto elim!: timers_inv_same)
next
  case (Opened i)
  with assms show ?thesis by (auto split: if_splits elim!: timers_inv_same)
next
  case (Message i frame)
  with assms(2) have "st' = st \<or> same_script_state st st'"
    by (auto split: if_splits dest: ws_onmessage_script_state)
  with assms(1) show ?thesis
    by (auto simp: same_script_state_def elim!: timers_inv_same)
next
  case (Closed i failed)
  have "timers_inv (set_readyState i CLOSED st)"
    using assms(1) by (rule timers_inv_same) simp_all
  moreover have "timers_inv (ws_onerror (set_readyState i CLOSED st))"
    using assms(1) by (rule timers_inv_same) simp_all
  ultimately show ?thesis
    using assms Closed by (auto simp: Let_def split: if_splits intro: timers_inv_onclose)
next
  case (Closing i)
  with assms show ?thesis by (auto split: if_splits elim!: timers_inv_same)
next
  case SendMessage
  with assms show ?thesis by (auto intro: timers_inv_sendMessage)
next
  case (Timeout i)
  with assms show ?thesis by (auto intro: timers_inv_fire)
next
  case (Elapse d)
  with assms show ?thesis by (auto intro: timers_inv_elapse)
next
  case (EditUsername s)
  with assms show ?thesis by (auto elim!: timers_inv_same)
next
  case JoinChat
  with assms show ?thesis by (auto elim!: timers_inv_same)
next
  case (Input s)
  have "timers_inv (st\<lparr>messageInput_value := s\<rparr>)"
    using assms(1) by (rule timers_inv_same) simp_all
  then have "timers_inv ((input_listener E ^^ messageInput_listeners st) (st\<lparr>messageInput_value := s\<rparr>))"
    by (rule funpow_invariant [rotated]) (rule timers_inv_input)
  with assms Input show ?thesis by auto
next
  case (KeyPress k)
  have "timers_inv ((keypress_listener E k ^^ messageInput_listeners st) st)"
    using assms(1) by (rule funpow_invariant [rotated]) (rule timers_inv_keypress)
  with assms KeyPress show ?thesis by auto
qed

lemma initial_timers_inv: "initial st \<Longrightarrow> timers_inv st"
  by (simp add: initial_def timers_inv_def)

lemma reachable_timers_inv: "reachable E st \<Longrightarrow> timers_inv st"
  by (induction rule: reachable.induct) (auto intro: initial_timers_inv timers_inv_step)

subsection \<open>Without an open socket\<close>

lemma getProp_non_null: "data \<noteq> JNull \<Longrightarrow> \<exists>v. getProp data k = Inr v"
  by (cases data) simp_all

lemma funpow_fixed: "f s = s \<Longrightarrow> (f ^^ n) s = s"
  by (induction n) simp_all

lemma sendMessage_closed: "\<not> ws_open st \<Longrightarrow> sendMessage E st = st"
  by (simp add: sendMessage_def)

lemma sendTypingStatus_closed: "\<not> ws_open st \<Longrightarrow> sendTypingStatus E b st = st"
  by (simp add: sendTypingStatus_def)

lemma keypress_closed: "\<not> ws_open st \<Longrightarrow> keypress_listener E k st = st"
  by (simp add: keypress_listener_def sendMessage_closed)

lemma ws_open_cong: "ws st' = ws st \<Longrightarrow> sockets st' = sockets st \<Longrightarrow> ws_open st' = ws_open st"
  by (simp add: ws_open_def split: option.splits)

lemma input_listener_sockets:
  "sockets (input_listener E st) =
     sockets (if isTyping st then st else sendTypingStatus E True (st\<lparr>isTyping := True\<rparr>))"
  by (simp add: input_listener_def clearTimeout_def setTimeout_def Let_def split: option.splits)

lemma input_listener_closed:
  assumes "\<not> ws_open st"
  shows "sockets (input_listener E st) = sockets st"
proof -
  have "\<not> ws_open (st\<lparr>isTyping := True\<rparr>)"
    using assms ws_open_cong [of "st\<lparr>isTyping := True\<rparr>" st] by simp
  then have "sendTypingStatus E True (st\<lparr>isTyping := True\<rparr>) = st\<lparr>isTyping := True\<rparr>"
    by (rule sendTypingStatus_closed)
  then show ?thesis by (simp add: input_listener_sockets)
qed

lemma input_event_closed:
  assumes "\<not> ws_open st"
  shows "sockets ((input_listener E ^^ n) (st\<lparr>messageInput_value := s\<rparr>)) = sockets st"
proof -
  let ?P = "\<lambda>x :: state. sockets x = sockets st \<and> ws x = ws st"
  have "?P ((input_listener E ^^ n) (st\<lparr>messageInput_value := s\<rparr>))"
  proof (rule funpow_invariant)
    show "?P (st\<lparr>messageInput_value := s\<rparr>)" by simp
  next
    fix x assume x: "?P x"
    then have "\<not> ws_open x" using assms ws_open_cong [of x st] by simp
    then have "sockets (input_listener E x) = sockets x" by (rule input_listener_closed)
    with x show "?P (input_listener E x)" by simp
  qed
  then show ?thesis by simp
qed





subsection \<open>Close, wait, reconnect\<close>

lemma find_pending:
  assumes "distinct (map timer_id ts)" and "t \<in> set ts"
  shows "find (\<lambda>u. timer_id u = timer_id t) ts = Some t"
proof (cases "find (\<lambda>u. timer_id u = timer_id t) ts")
  case None
  then have "\<forall>u \<in> set ts. timer_id u \<noteq> timer_id t" by (simp add: find_None_iff)
  with assms(2) show ?thesis by blast
next
  case (Some u)
  then have "u \<in> set ts" "timer_id u = timer_id t" using find_timer by blast+
  then have "u = t" using distinct_ids_unique [OF assms(1) _ assms(2)] by blast
  with Some show ?thesis by simp
qed

lemma fire_pending:
  assumes inv: "timers_inv st" and t: "t \<in> set (timers st)"
  shows "fire_timer E (timer_id t) st =
           (if clock st = due t
            then run_callback E (callback t)
                   (st\<lparr>timers := filter (\<lambda>u. timer_id u \<noteq> timer_id t) (timers st)\<rparr>)
            else st)"
proof -
  have "find (\<lambda>u. timer_id u = timer_id t) (timers st) = Some t"
    using timers_invD(2) [OF inv] t by (rule find_pending)
  moreover have "clock st \<le> due t" using timers_invD(7) [OF inv] t by blast
  ultimately show ?thesis by (auto simp: fire_timer_def)
qed

lemma close_event:
  assumes "i < length (sockets st)" and "readyState (sockets st ! i) \<noteq> CLOSED"
  shows "step E st (Closed i failed) =
           Inr (ws_onclose (if failed then ws_onerror (set_readyState i CLOSED st)
                            else set_readyState i CLOSED st))"
  using assms by (simp add: Let_def)

lemma input_keeps_reconnect:
  assumes inv: "timers_inv st" and t: "t \<in> set (timers st)" and c: "callback t = Reconnect"
  shows "t \<in> set (timers (input_listener E st))"
proof -
  have "typingTimeout st \<noteq> Some (timer_id t)"
    using timers_invD(5) [OF inv] t c by auto
  then show ?thesis using t by (auto simp: input_listener_timers)
qed

lemma keypress_timers: "timers (keypress_listener E k st) = timers st"
  by (simp add: keypress_listener_def)

lemma step_keeps_reconnect:
  assumes inv: "timers_inv st" and t: "t \<in> set (timers st)" and c: "callback t = Reconnect"
    and ev: "ev \<noteq> Timeout (timer_id t)" and s: "step E st ev = Inr st'"
  shows "t \<in> set (timers st')"
proof (cases ev)
  case (Message i frame)
  with s have "st' = st \<or> same_script_state st st'"
    by (auto split: if_splits dest: ws_onmessage_script_state)
  then show ?thesis using t by (auto simp: same_script_state_def)
next
  case (Closed i failed)
  with s t show ?thesis by (auto simp: Let_def ws_onclose_timers split: if_splits)
next
  case (Timeout j)
  with ev have j: "j \<noteq> timer_id t" by simp
  from fire_timer_cases [of E j st] have "t \<in> set (timers (fire_timer E j st))"
  proof
    assume "fire_timer E j st = st"
    then show ?thesis using t by simp
  next
    assume "\<exists>u. u \<in> set (timers st) \<and> timer_id u = j \<and> due u \<le> clock st \<and>
        fire_timer E j st =
          run_callback E (callback u) (st\<lparr>timers := filter (\<lambda>u. timer_id u \<noteq> j) (timers st)\<rparr>)"
    then obtain u :: timer where "fire_timer E j st =
          run_callback E (callback u) (st\<lparr>timers := filter (\<lambda>u. timer_id u \<noteq> j) (timers st)\<rparr>)"
      by blast
    then show ?thesis using t j
      by (simp add: run_callback_def typing_timeout_def split: callback.splits)
  qed
  with s Timeout show ?thesis by simp
next
  case (Input v)
  let ?P = "\<lambda>x :: state. timers_inv x \<and> t \<in> set (timers x)"
  have "?P ((input_listener E ^^ messageInput_listeners st) (st\<lparr>messageInput_value := v\<rparr>))"
  proof (rule funpow_invariant)
    have "timers_inv (st\<lparr>messageInput_value := v\<rparr>)" using inv by (rule timers_inv_same) simp_all
    then show "?P (st\<lparr>messageInput_value := v\<rparr>)" using t by simp
  next
    fix x assume "?P x"
    then show "?P (input_listener E x)"
      using timers_inv_input input_keeps_reconnect [OF _ _ c] by blast
  qed
  with s Input show ?thesis by auto
next
  case (KeyPress k)
  let ?P = "\<lambda>x :: state. timers x = timers st"
  have "?P ((keypress_listener E k ^^ messageInput_listeners st) st)"
    by (rule funpow_invariant) (simp_all add: keypress_timers)
  with s KeyPress t show ?thesis by auto
next
  case (Opened i)
  with s t show ?thesis by (auto split: if_splits)
next
  case (Closing i)
  with s t show ?thesis by (auto split: if_splits)
qed (use s t in auto)

lemma one_failure:
  assumes k: "k < length (sockets st)" "readyState (sockets st ! k) \<noteq> CLOSED"
    and none: "timers st = []"
  shows "run E st [Closed k True, Elapse 3000, Timeout (nextTimer st)] =
           connectWebSocket ((ws_onclose (ws_onerror (set_readyState k CLOSED st)))
             \<lparr>clock := clock st + 3000, timers := []\<rparr>)"
proof -
  let ?s = "ws_onerror (set_readyState k CLOSED st)"
  let ?new = "\<lparr>timer_id = nextTimer st, due = clock st + 3000, callback = Reconnect\<rparr>"
  have ts: "timers (ws_onclose ?s) = [?new]" using none by (simp add: ws_onclose_timers)
  have e: "elapse 3000 (ws_onclose ?s) = (ws_onclose ?s)\<lparr>clock := clock st + 3000\<rparr>"
    by (simp add: elapse_def ts)
  have "fire_timer E (nextTimer st) ((ws_onclose ?s)\<lparr>clock := clock st + 3000\<rparr>)
          = connectWebSocket ((ws_onclose ?s)\<lparr>clock := clock st + 3000, timers := []\<rparr>)"
    by (simp add: fire_timer_def ts run_callback_def)
  then show ?thesis using k by (simp add: Let_def e)
qed

lemma failures_run:
  assumes "length (sockets st) = Suc k" and "readyState (sockets st ! k) \<noteq> CLOSED"
    and "timers st = []"
  shows "length (sockets (run E st (failures k (nextTimer st) n))) = Suc (k + n)
       \<and> ws (run E st (failures k (nextTimer st) n)) = (if n = 0 then ws st else Some (k + n))
       \<and> readyState (sockets (run E st (failures k (nextTimer st) n)) ! (k + n)) \<noteq> CLOSED
       \<and> clock (run E st (failures k (nextTimer st) n)) = clock st + 3000 * n
       \<and> timers (run E st (failures k (nextTimer st) n)) = []"
  using assms
proof (induction n arbitrary: st k)
  case 0
  then show ?case by simp
next
  case (Suc n)
  let ?s = "connectWebSocket ((ws_onclose (ws_onerror (set_readyState k CLOSED st)))
             \<lparr>clock := clock st + 3000, timers := []\<rparr>)"
  have k: "k < length (sockets st)" using Suc.prems(1) by simp
  have r: "run E st [Closed k True, Elapse 3000, Timeout (nextTimer st)] = ?s"
    using k Suc.prems(2,3) by (rule one_failure)
  have split: "run E st (failures k (nextTimer st) (Suc n)) = run E ?s (failures (Suc k) (nextTimer ?s) n)"
  proof -
    have "run E st (failures k (nextTimer st) (Suc n))
          = run E (run E st [Closed k True, Elapse 3000, Timeout (nextTimer st)])
              (failures (Suc k) (Suc (nextTimer st)) n)"
      by simp
    then show ?thesis unfolding r by simp
  qed
  have 1: "length (sockets ?s) = Suc (Suc k)" using Suc.prems(1) by simp
  have 2: "readyState (sockets ?s ! Suc k) \<noteq> CLOSED"
    using Suc.prems(1) by (simp add: nth_append)
  have 3: "timers ?s = []" by simp
  show ?case
    unfolding split using Suc.IH [OF 1 2 3] Suc.prems(1) by simp
qed

lemma reachable_run: "reachable E st \<Longrightarrow> reachable E (run E st evs)"
proof (induction evs arbitrary: st)
  case Nil
  then show ?case by simp
next
  case (Cons e es)
  show ?case
  proof (cases "step E st e")
    case (Inl err)
    then show ?thesis using Cons by simp
  next
    case (Inr st')
    then have "reachable E st'" using Cons.prems by (rule reachable.after [rotated])
    then show ?thesis using Cons.IH Inr by simp
  qed
qed

lemma initial_example_page: "initial example_page"
  by (simp add: initial_def example_page_def)

subsection \<open>The typing timer\<close>

lemma ws_send_flag: "sockets (ws_send (st\<lparr>isTyping := b\<rparr>) f) = sockets (ws_send st f)"
  by (simp add: ws_send_def split: option.splits)

lemma sendTypingStatus_sockets:
  "sockets (sendTypingStatus E typing (st\<lparr>isTyping := b\<rparr>)) =
     sockets (if ws_open st
              then ws_send st (JSON_stringify E (JObj
                     [(lit ''type'', JStr (lit ''typing'')), (lit ''username'', JStr (username st)),
                      (lit ''typing'', JBool typing)]))
              else st)"
proof -
  have "ws_open (st\<lparr>isTyping := b\<rparr>) = ws_open st" by (rule ws_open_cong) simp_all
  then show ?thesis by (simp add: sendTypingStatus_def ws_send_flag)
qed

lemma typing_timers_filter:
  assumes inv: "timers_inv st"
  shows "filter (\<lambda>t. Some (timer_id t) \<noteq> typingTimeout st) (timers st)
         = filter (\<lambda>t. callback t \<noteq> TypingOff) (timers st)"
proof (rule filter_cong [OF refl])
  fix t assume "t \<in> set (timers st)"
  then show "(Some (timer_id t) \<noteq> typingTimeout st) = (callback t \<noteq> TypingOff)"
    using timers_invD(4,5) [OF inv] by metis
qed

lemma fire_typing_timer:
  assumes inv: "timers_inv st" and t: "t \<in> set (timers st)" and c: "callback t = TypingOff"
  shows "fire_timer E (timer_id t) st =
           (if clock st = due t
            then typing_timeout E (st\<lparr>timers := filter (\<lambda>u. callback u \<noteq> TypingOff) (timers st)\<rparr>)
            else st)"
proof -
  have same: "u = t" if "u \<in> set (timers st)" "timer_id u = timer_id t" for u
    using distinct_ids_unique [OF timers_invD(2) [OF inv] that(1) t that(2)] .
  have "filter (\<lambda>u. timer_id u \<noteq> timer_id t) (timers st)
                 = filter (\<lambda>u. callback u \<noteq> TypingOff) (timers st)"
  proof (rule filter_cong [OF refl])
    fix u assume u: "u \<in> set (timers st)"
    show "(timer_id u \<noteq> timer_id t) = (callback u \<noteq> TypingOff)"
    proof
      assume "timer_id u \<noteq> timer_id t"
      then have "typingTimeout st \<noteq> Some (timer_id u)"
        using timers_invD(4) [OF inv] t c by auto
      then show "callback u \<noteq> TypingOff" using timers_invD(4) [OF inv] u by blast
    next
      assume "callback u \<noteq> TypingOff"
      then have "u \<noteq> t" using c by auto
      then show "timer_id u \<noteq> timer_id t" using same [OF u] by blast
    qed
  qed
  then show ?thesis using fire_pending [OF inv t, of E] c by (simp add: run_callback_def)
qed

subsection \<open>Every frame handed to a socket has one of the three shapes\<close>

lemma frames_ok_same: "sockets st' = sockets st \<Longrightarrow> frames_ok E st' = frames_ok E st"
  by (simp add: frames_ok_def)

lemma frames_ok_ws_send:
  assumes "frames_ok E st" and "outbound E f"
  shows "frames_ok E (ws_send st f)"
proof (cases "ws st")
  case None
  then show ?thesis using assms by (simp add: ws_send_def)
next
  case (Some i)
  show ?thesis
  proof (cases "i < length (sockets st) \<and> readyState (sockets st ! i) = OPEN")
    case False
    then show ?thesis using assms Some by (auto simp: ws_send_def)
  next
    case True
    let ?x = "(sockets st ! i)\<lparr>sent := sent (sockets st ! i) @ [f]\<rparr>"
    have "sockets st ! i \<in> set (sockets st)" using True by simp
    then have old: "\<forall>g \<in> set (sent (sockets st ! i)). outbound E g"
      using assms(1) unfolding frames_ok_def by blast
    have "\<forall>g \<in> set (sent s). outbound E g" if "s \<in> set ((sockets st)[i := ?x])" for s
    proof -
      from that have "s = ?x \<or> s \<in> set (sockets st)"
        using set_update_subset_insert [of "sockets st" i ?x] by auto
      then show ?thesis using old assms by (auto simp: frames_ok_def)
    qed
    then show ?thesis using Some True by (simp add: ws_send_def frames_ok_def)
  qed
qed

lemma outbound_typing:
  "outbound E (JSON_stringify E (JObj
     [(lit ''type'', JStr (lit ''typing'')), (lit ''username'', JStr u), (lit ''typing'', JBool b)]))"
  unfolding outbound_def by blast

lemma outbound_message:
  "outbound E (JSON_stringify E (JObj
     [(lit ''type'', JStr (lit ''message'')), (lit ''username'', JStr u),
      (lit ''content'', JStr c), (lit ''timestamp'', JStr t)]))"
  unfolding outbound_def by blast

lemma outbound_join:
  "outbound E (JSON_stringify E (JObj
     [(lit ''type'', JStr (lit ''join'')), (lit ''username'', JStr u), (lit ''timestamp'', JStr t)]))"
  unfolding outbound_def by blast

lemma frames_ok_sendTypingStatus:
  "frames_ok E st \<Longrightarrow> frames_ok E (sendTypingStatus E b st)"
  by (simp add: sendTypingStatus_def frames_ok_ws_send outbound_typing)

lemma frames_ok_flag: "frames_ok E (st\<lparr>isTyping := b\<rparr>) = frames_ok E st"
  by (rule frames_ok_same) simp

lemma frames_ok_sendMessage:
  assumes "frames_ok E st"
  shows "frames_ok E (sendMessage E st)"
proof -
  let ?m = "JSON_stringify E (JObj
                    [(lit ''type'', JStr (lit ''message'')),
                     (lit ''username'', JStr (username st)),
                     (lit ''content'', JStr (trim (messageInput_value st))),
                     (lit ''timestamp'', JStr (toISOString E (clock st)))])"
  have 1: "frames_ok E (ws_send st ?m)" using assms outbound_message by (rule frames_ok_ws_send)
  have 2: "frames_ok E ((ws_send st ?m)\<lparr>messageInput_value := []\<rparr>)"
    using 1 frames_ok_same [of "(ws_send st ?m)\<lparr>messageInput_value := []\<rparr>" "ws_send st ?m" E] by simp
  have 3: "frames_ok E ((ws_send st ?m)\<lparr>messageInput_value := [], isTyping := False\<rparr>)"
    using 2 frames_ok_flag by blast
  have 4: "frames_ok E (sendTypingStatus E False ((ws_send st ?m)\<lparr>messageInput_value := [], isTyping := False\<rparr>))"
    using 3 by (rule frames_ok_sendTypingStatus)
  show ?thesis using assms 2 4 by (simp add: sendMessage_def Let_def)
qed

lemma frames_ok_keypress: "frames_ok E st \<Longrightarrow> frames_ok E (keypress_listener E k st)"
  by (simp add: keypress_listener_def frames_ok_sendMessage)

lemma frames_ok_input:
  assumes "frames_ok E st"
  shows "frames_ok E (input_listener E st)"
proof -
  have "frames_ok E (sendTypingStatus E True (st\<lparr>isTyping := True\<rparr>))"
    using assms frames_ok_flag frames_ok_sendTypingStatus by blast
  then have "frames_ok E (if isTyping st then st else sendTypingStatus E True (st\<lparr>isTyping := True\<rparr>))"
    using assms by simp
  then show ?thesis
    using frames_ok_same [OF input_listener_sockets] by blast
qed

lemma frames_ok_joinChat:
  assumes "frames_ok E st"
  shows "frames_ok E (joinChat E st)"
proof -
  let ?u = "trim (usernameInput_value st)"
  let ?j = "JSON_stringify E (JObj
                    [(lit ''type'', JStr (lit ''join'')),
                     (lit ''username'', JStr ?u),
                     (lit ''timestamp'', JStr (toISOString E (clock st)))])"
  have "frames_ok E (st\<lparr>username := ?u\<rparr>)" using assms frames_ok_same [of "st\<lparr>username := ?u\<rparr>" st E] by simp
  then have "frames_ok E (ws_send (st\<lparr>username := ?u\<rparr>) ?j)"
    using outbound_join by (rule frames_ok_ws_send)
  then show ?thesis
    using assms by (simp add: joinChat_def Let_def alert_def setupEventListeners_def frames_ok_def)
qed

lemma frames_ok_fire:
  assumes "frames_ok E st"
  shows "frames_ok E (fire_timer E i st)"
proof -
  let ?s = "st\<lparr>timers := filter (\<lambda>u. timer_id u \<noteq> i) (timers st)\<rparr>"
  have s: "frames_ok E ?s" using assms frames_ok_same [of ?s st E] by simp
  have c: "frames_ok E (connectWebSocket ?s)" using s by (auto simp: frames_ok_def)
  have t: "frames_ok E (typing_timeout E ?s)"
    unfolding typing_timeout_def using s frames_ok_flag frames_ok_sendTypingStatus by blast
  have "frames_ok E (run_callback E f ?s)" for f
    using c t by (cases f) (simp_all add: run_callback_def)
  then show ?thesis using fire_timer_cases [of E i st] assms by auto
qed

lemma frames_ok_set_readyState: "frames_ok E st \<Longrightarrow> frames_ok E (set_readyState i r st)"
proof -
  assume a: "frames_ok E st"
  let ?x = "(sockets st ! i)\<lparr>readyState := r\<rparr>"
  have "\<forall>g \<in> set (sent s). outbound E g" if "s \<in> set ((sockets st)[i := ?x])" for s
  proof (cases "i < length (sockets st)")
    case True
    then have "sockets st ! i \<in> set (sockets st)" by (rule nth_mem)
    then have old: "\<forall>g \<in> set (sent (sockets st ! i)). outbound E g"
      using a unfolding frames_ok_def by blast
    from that have "s = ?x \<or> s \<in> set (sockets st)"
      using set_update_subset_insert [of "sockets st" i ?x] by auto
    then show ?thesis
    proof
      assume "s = ?x"
      then show ?thesis using old by simp
    next
      assume "s \<in> set (sockets st)"
      then show ?thesis using a unfolding frames_ok_def by blast
    qed
  next
    case False
    then have "(sockets st)[i := ?x] = sockets st" by (simp add: list_update_beyond not_less)
    with that have "s \<in> set (sockets st)" by simp
    then show ?thesis using a unfolding frames_ok_def by blast
  qed
  then show ?thesis by (simp add: set_readyState_def frames_ok_def)
qed

lemma frames_ok_step:
  assumes "frames_ok E st" and "step E st ev = Inr st'"
  shows "frames_ok E st'"
proof (cases ev)
  case DOMContentLoaded
  with assms show ?thesis by (auto simp: frames_ok_def)
next
  case (Opened i)
  have "frames_ok E (ws_onopen (set_readyState i OPEN st))"
    using frames_ok_set_readyState [OF assms(1), of i OPEN]
      frames_ok_same [of "ws_onopen (set_readyState i OPEN st)" "set_readyState i OPEN st" E] by simp
  with assms Opened show ?thesis by (auto split: if_splits)
next
  case (Message i frame)
  with assms(2) have "st' = st \<or> same_script_state st st'"
    by (auto split: if_splits dest: ws_onmessage_script_state)
  then have "sockets st' = sockets st" by (auto simp: same_script_state_def)
  then show ?thesis using assms(1) frames_ok_same by blast
next
  case (Closed i failed)
  let ?c = "set_readyState i CLOSED st"
  have c: "frames_ok E ?c" using assms(1) by (rule frames_ok_set_readyState)
  have "frames_ok E (ws_onclose ?c)" using c frames_ok_same [of "ws_onclose ?c" ?c E] by simp
  moreover have "frames_ok E (ws_onclose (ws_onerror ?c))"
    using c frames_ok_same [of "ws_onclose (ws_onerror ?c)" ?c E] by simp
  ultimately show ?thesis using assms Closed by (auto simp: Let_def split: if_splits)
next
  case (Closing i)
  with assms show ?thesis by (auto split: if_splits intro: frames_ok_set_readyState)
next
  case SendMessage
  with assms show ?thesis by (auto intro: frames_ok_sendMessage)
next
  case (Timeout i)
  with assms show ?thesis by (auto intro: frames_ok_fire)
next
  case (Elapse d)
  with assms show ?thesis by (auto simp: frames_ok_def)
next
  case (EditUsername s)
  with assms show ?thesis by (auto simp: frames_ok_def)
next
  case JoinChat
  with assms show ?thesis by (auto intro: frames_ok_joinChat)
next
  case (Input s)
  have "frames_ok E (st\<lparr>messageInput_value := s\<rparr>)"
    using assms(1) by (simp add: frames_ok_def)
  then have "frames_ok E ((input_listener E ^^ messageInput_listeners st) (st\<lparr>messageInput_value := s\<rparr>))"
    by (rule funpow_invariant [rotated]) (rule frames_ok_input)
  with assms Input show ?thesis by auto
next
  case (KeyPress k)
  have "frames_ok E ((keypress_listener E k ^^ messageInput_listeners st) st)"
    using assms(1) by (rule funpow_invariant [rotated]) (rule frames_ok_keypress)
  with assms KeyPress show ?thesis by auto
qed

lemma reachable_frames_ok: "reachable E st \<Longrightarrow> frames_ok E st"
proof (induction rule: reachable.induct)
  case (start st)
  then show ?case by (simp add: initial_def frames_ok_def)
next
  case (after st ev st')
  then show ?case by (auto intro: frames_ok_step)
qed

lemma sent_ws_send:
  assumes "ws st = Some i" and "ws_open st"
  shows "sent (sockets (ws_send st f) ! i) = sent (sockets st ! i) @ [f]"
    and "ws_open (ws_send st f)"
  using assms by (simp_all add: ws_send_def ws_open_def)

lemma ws_send_other_fields:
  "sockets (ws_send (st\<lparr>username := u\<rparr>) f) = sockets (ws_send st f)"
  "sockets (ws_send (st\<lparr>messageInput_value := v\<rparr>) f) = sockets (ws_send st f)"
  by (simp_all add: ws_send_def split: option.splits)

lemma joinChat_sent:
  assumes "ws st = Some i" and "ws_open st" and "trim (usernameInput_value st) \<noteq> []"
  shows "sent (sockets (joinChat E st) ! i) =
           sent (sockets st ! i) @ [JSON_stringify E (JObj
             [(lit ''type'', JStr (lit ''join'')),
              (lit ''username'', JStr (trim (usernameInput_value st))),
              (lit ''timestamp'', JStr (toISOString E (clock st)))])]"
  using assms sent_ws_send(1) [OF assms(1,2)]
  by (simp add: joinChat_def Let_def setupEventListeners_def ws_send_other_fields)

lemma sendTypingStatus_sent:
  assumes "ws st = Some i" and "ws_open st"
  shows "sent (sockets (sendTypingStatus E b st) ! i) =
           sent (sockets st ! i) @ [JSON_stringify E (JObj
             [(lit ''type'', JStr (lit ''typing'')), (lit ''username'', JStr (username st)),
              (lit ''typing'', JBool b)])]"
  using assms by (simp add: sendTypingStatus_def sent_ws_send)

lemma sendMessage_sent:
  assumes "ws st = Some i" and "ws_open st" and "trim (messageInput_value st) \<noteq> []"
  shows "sent (sockets (sendMessage E st) ! i) =
           sent (sockets st ! i)
           @ [JSON_stringify E (JObj
                [(lit ''type'', JStr (lit ''message'')), (lit ''username'', JStr (username st)),
                 (lit ''content'', JStr (trim (messageInput_value st))),
                 (lit ''timestamp'', JStr (toISOString E (clock st)))])]
           @ (if isTyping st
              then [JSON_stringify E (JObj
                     [(lit ''type'', JStr (lit ''typing'')), (lit ''username'', JStr (username st)),
                      (lit ''typing'', JBool False)])]
              else [])"
proof -
  let ?m = "JSON_stringify E (JObj
                [(lit ''type'', JStr (lit ''message'')), (lit ''username'', JStr (username st)),
                 (lit ''content'', JStr (trim (messageInput_value st))),
                 (lit ''timestamp'', JStr (toISOString E (clock st)))])"
  let ?s = "(ws_send st ?m)\<lparr>messageInput_value := []\<rparr>"
  have m: "sent (sockets ?s ! i) = sent (sockets st ! i) @ [?m]"
    using sent_ws_send(1) [OF assms(1,2)] by simp
  have o: "ws_open (?s\<lparr>isTyping := False\<rparr>)"
    using sent_ws_send(2) [OF assms(1,2), of ?m] ws_open_cong [of "?s\<lparr>isTyping := False\<rparr>" "ws_send st ?m"]
    by simp
  have w: "ws (?s\<lparr>isTyping := False\<rparr>) = Some i" using assms(1) by simp
  have t: "sent (sockets (sendTypingStatus E False (?s\<lparr>isTyping := False\<rparr>)) ! i) =
           sent (sockets (?s\<lparr>isTyping := False\<rparr>) ! i) @ [JSON_stringify E (JObj
             [(lit ''type'', JStr (lit ''typing'')), (lit ''username'', JStr (username (?s\<lparr>isTyping := False\<rparr>))),
              (lit ''typing'', JBool False)])]"
    using w o by (rule sendTypingStatus_sent)
  show ?thesis
    using assms(2,3) m t by (simp add: sendMessage_def Let_def)
qed

section \<open>The claims\<close>

subsection \<open>C1: message content is escaped\<close>



subsection \<open>C2: reconnecting three seconds after a close\<close>

text \<open>
  Claim C2. In every reachable state, the close event of a socket, whether or not it
  comes from a failure, leaves a timer for \<open>connectWebSocket\<close> due exactly 3000 ms after
  the close. A pending reconnect timer is never overdue and never cancelled: no event
  but its own running removes it, it does not run before its due time, and at its due
  time it runs \<open>connectWebSocket\<close> in full, constructing the next socket. The delay does
  not depend on the state, and nothing counts the attempts: from a fresh page, \<open>n\<close>
  failures in a row give \<open>n\<close> reconnects, the last one \<open>3000 * n\<close> ms after the start,
  for every \<open>n\<close>.
\<close>

theorem reconnect_after_close:
  assumes "reachable E st"
  shows "(i < length (sockets st) \<and> readyState (sockets st ! i) \<noteq> CLOSED \<longrightarrow>
            (\<exists>st1. step E st (Closed i failed) = Inr st1
               \<and> timers st1 = timers st
                    @ [\<lparr>timer_id = nextTimer st, due = clock st + 3000, callback = Reconnect\<rparr>]
               \<and> clock st1 = clock st))
       \<and> (\<forall>t \<in> set (timers st). callback t = Reconnect \<longrightarrow>
            clock st \<le> due t
            \<and> fire_timer E (timer_id t) st =
                (if clock st = due t
                 then connectWebSocket
                        (st\<lparr>timers := filter (\<lambda>u. timer_id u \<noteq> timer_id t) (timers st)\<rparr>)
                 else st)
            \<and> (\<forall>ev st'. ev \<noteq> Timeout (timer_id t) \<and> step E st ev = Inr st' \<longrightarrow> t \<in> set (timers st')))
       \<and> (\<forall>st0 n. initial st0 \<longrightarrow>
            length (sockets (run E st0 (DOMContentLoaded # failures 0 (nextTimer st0) n))) = Suc n
            \<and> ws (run E st0 (DOMContentLoaded # failures 0 (nextTimer st0) n)) = Some n
            \<and> clock (run E st0 (DOMContentLoaded # failures 0 (nextTimer st0) n)) = clock st0 + 3000 * n)"
proof (intro conjI)
  have inv: "timers_inv st" using assms by (rule reachable_timers_inv)
  show "i < length (sockets st) \<and> readyState (sockets st ! i) \<noteq> CLOSED \<longrightarrow>
            (\<exists>st1. step E st (Closed i failed) = Inr st1
               \<and> timers st1 = timers st
                    @ [\<lparr>timer_id = nextTimer st, due = clock st + 3000, callback = Reconnect\<rparr>]
               \<and> clock st1 = clock st)"
  proof
    assume i: "i < length (sockets st) \<and> readyState (sockets st ! i) \<noteq> CLOSED"
    let ?s = "if failed then ws_onerror (set_readyState i CLOSED st) else set_readyState i CLOSED st"
    have same: "timers ?s = timers st" "nextTimer ?s = nextTimer st" "clock ?s = clock st"
      by (cases failed; simp)+
    have "step E st (Closed i failed) = Inr (ws_onclose ?s)"
      using i by (intro close_event) simp_all
    moreover have "timers (ws_onclose ?s) =
        timers st @ [\<lparr>timer_id = nextTimer st, due = clock st + 3000, callback = Reconnect\<rparr>]"
      unfolding ws_onclose_timers same ..
    moreover have "clock (ws_onclose ?s) = clock st" using same by simp
    ultimately show "\<exists>st1. step E st (Closed i failed) = Inr st1
               \<and> timers st1 = timers st
                    @ [\<lparr>timer_id = nextTimer st, due = clock st + 3000, callback = Reconnect\<rparr>]
               \<and> clock st1 = clock st"
      by blast
  qed
  show "\<forall>t \<in> set (timers st). callback t = Reconnect \<longrightarrow>
            clock st \<le> due t
            \<and> fire_timer E (timer_id t) st =
                (if clock st = due t
                 then connectWebSocket
                        (st\<lparr>timers := filter (\<lambda>u. timer_id u \<noteq> timer_id t) (timers st)\<rparr>)
                 else st)
            \<and> (\<forall>ev st'. ev \<noteq> Timeout (timer_id t) \<and> step E st ev = Inr st' \<longrightarrow> t \<in> set (timers st'))"
  proof (intro ballI impI conjI allI)
    fix t assume t: "t \<in> set (timers st)" and c: "callback t = Reconnect"
    show "clock st \<le> due t" using timers_invD(7) [OF inv] t by blast
    show "fire_timer E (timer_id t) st =
                (if clock st = due t
                 then connectWebSocket
                        (st\<lparr>timers := filter (\<lambda>u. timer_id u \<noteq> timer_id t) (timers st)\<rparr>)
                 else st)"
      using fire_pending [OF inv t, of E] c by (simp add: run_callback_def)
    fix ev st' assume "ev \<noteq> Timeout (timer_id t) \<and> step E st ev = Inr st'"
    then show "t \<in> set (timers st')" using step_keeps_reconnect [OF inv t c] by blast
  qed
  show "\<forall>st0 n. initial st0 \<longrightarrow>
            length (sockets (run E st0 (DOMContentLoaded # failures 0 (nextTimer st0) n))) = Suc n
            \<and> ws (run E st0 (DOMContentLoaded # failures 0 (nextTimer st0) n)) = Some n
            \<and> clock (run E st0 (DOMContentLoaded # failures 0 (nextTimer st0) n)) = clock st0 + 3000 * n"
  proof (intro allI impI)
    fix st0 :: state and n assume i: "initial st0"
    let ?c = "connectWebSocket st0"
    have 1: "length (sockets ?c) = Suc 0" using i by (simp add: initial_def)
    have 2: "readyState (sockets ?c ! 0) \<noteq> CLOSED" using i by (simp add: initial_def)
    have 3: "timers ?c = []" using i by (simp add: initial_def)
    have 4: "ws ?c = Some 0" using i by (simp add: initial_def)
    show "length (sockets (run E st0 (DOMContentLoaded # failures 0 (nextTimer st0) n))) = Suc n
            \<and> ws (run E st0 (DOMContentLoaded # failures 0 (nextTimer st0) n)) = Some n
            \<and> clock (run E st0 (DOMContentLoaded # failures 0 (nextTimer st0) n)) = clock st0 + 3000 * n"
      using failures_run [OF 1 2 3, of E n] 4 by simp
  qed
qed

text \<open>
  On the example page: the first socket fails, which leaves the timer 1 due at 3000; it
  does not run at time 0; after three failures in a row the clock stands at 9000 and the
  fourth socket is current.
\<close>

theorem reconnect_after_close_witness:
  "reachable example_env (run example_env example_page [DOMContentLoaded, Closed 0 True])
   \<and> timers (run example_env example_page [DOMContentLoaded, Closed 0 True])
       = [\<lparr>timer_id = 1, due = 3000, callback = Reconnect\<rparr>]
   \<and> fire_timer example_env 1 (run example_env example_page [DOMContentLoaded, Closed 0 True])
       = run example_env example_page [DOMContentLoaded, Closed 0 True]
   \<and> clock (run example_env example_page (DOMContentLoaded # failures 0 1 3)) = 9000
   \<and> ws (run example_env example_page (DOMContentLoaded # failures 0 1 3)) = Some 3"
proof -
  let ?S = "run example_env example_page [DOMContentLoaded, Closed 0 True]"
  let ?t = "\<lparr>timer_id = 1, due = 3000, callback = Reconnect\<rparr>"
  have r: "reachable example_env ?S"
    using reachable.start [OF initial_example_page] by (rule reachable_run)
  have ts: "timers ?S = [?t]" and ck: "clock ?S = 0" by code_simp+
  have n: "nextTimer example_page = 1" "clock example_page = 0"
    by (simp_all add: example_page_def)
  have "?t \<in> set (timers ?S)" unfolding ts by simp
  then have "fire_timer example_env (timer_id ?t) ?S =
                (if clock ?S = due ?t
                 then connectWebSocket
                        (?S\<lparr>timers := filter (\<lambda>u. timer_id u \<noteq> timer_id ?t) (timers ?S)\<rparr>)
                 else ?S)"
    using reconnect_after_close [OF r] by fastforce
  then have early: "fire_timer example_env 1 ?S = ?S" unfolding ck by simp
  have "ws (run example_env example_page (DOMContentLoaded # failures 0 (nextTimer example_page) 3)) = Some 3
      \<and> clock (run example_env example_page (DOMContentLoaded # failures 0 (nextTimer example_page) 3))
          = clock example_page + 3000 * 3"
    using reconnect_after_close [OF r] initial_example_page by blast
  then have "clock (run example_env example_page (DOMContentLoaded # failures 0 1 3)) = 9000
     \<and> ws (run example_env example_page (DOMContentLoaded # failures 0 1 3)) = Some 3"
    unfolding n by simp
  with r ts early show ?thesis by simp
qed

subsection \<open>C3: alerts while disconnected\<close>




subsection \<open>C4: the typing flag and its debounce timer\<close>

text \<open>
  As stated, claim C4 has the first keystroke send \<open>typing: true\<close>. With the socket closed
  it does not: the user has joined, the socket has closed, and a keystroke sets the
  typing flag while no socket receives a frame.
\<close>

theorem first_keystroke_counterexample:
  "messageInput_listeners (run example_env example_page (joined @ [Closed 0 False])) = 1
   \<and> \<not> isTyping (run example_env example_page (joined @ [Closed 0 False]))
   \<and> isTyping (run example_env example_page (joined @ [Closed 0 False, Input (lit ''h'')]))
   \<and> sockets (run example_env example_page (joined @ [Closed 0 False, Input (lit ''h'')]))
       = sockets (run example_env example_page (joined @ [Closed 0 False]))"
  by code_simp

text \<open>
  Claim C4, amended. In every reachable state the typing flag is set only while a typing
  timer is pending, the one \<open>typingTimeout\<close> names. A keystroke sets the flag, cancels the
  pending typing timer and schedules a new one due 1000 ms later, so that at most one is
  ever pending; it hands a \<open>typing: true\<close> frame to the socket if the flag was not yet
  set and the socket is open, and sends nothing otherwise. The typing timer does not run
  before its due time, 1000 ms after the last keystroke; when it runs, the flag is
  reset, no typing timer remains, and a \<open>typing: false\<close> frame is handed to the socket if
  the socket is open.
\<close>

theorem typing_debounce:
  assumes "reachable E st"
  shows "(isTyping st \<longrightarrow>
            (\<exists>t \<in> set (timers st). callback t = TypingOff \<and> typingTimeout st = Some (timer_id t)))
       \<and> isTyping (input_listener E st)
       \<and> typingTimeout (input_listener E st) = Some (nextTimer st)
       \<and> timers (input_listener E st) =
            filter (\<lambda>t. callback t \<noteq> TypingOff) (timers st)
            @ [\<lparr>timer_id = nextTimer st, due = clock st + 1000, callback = TypingOff\<rparr>]
       \<and> sockets (input_listener E st) =
            sockets (if \<not> isTyping st \<and> ws_open st
                     then ws_send st (JSON_stringify E (JObj
                            [(lit ''type'', JStr (lit ''typing'')), (lit ''username'', JStr (username st)),
                             (lit ''typing'', JBool True)]))
                     else st)
       \<and> (\<forall>t \<in> set (timers st). callback t = TypingOff \<longrightarrow>
            clock st \<le> due t
            \<and> (clock st < due t \<longrightarrow> fire_timer E (timer_id t) st = st)
            \<and> (clock st = due t \<longrightarrow>
                 \<not> isTyping (fire_timer E (timer_id t) st)
                 \<and> timers (fire_timer E (timer_id t) st) = filter (\<lambda>u. callback u \<noteq> TypingOff) (timers st)
                 \<and> sockets (fire_timer E (timer_id t) st) =
                     sockets (if ws_open st
                              then ws_send st (JSON_stringify E (JObj
                                     [(lit ''type'', JStr (lit ''typing'')), (lit ''username'', JStr (username st)),
                                      (lit ''typing'', JBool False)]))
                              else st)))"
proof -
  have inv: "timers_inv st" using assms by (rule reachable_timers_inv)
  have 1: "isTyping st \<longrightarrow>
            (\<exists>t \<in> set (timers st). callback t = TypingOff \<and> typingTimeout st = Some (timer_id t))"
    using timers_invD(4,6) [OF inv] by blast
  have 2: "timers (input_listener E st) =
            filter (\<lambda>t. callback t \<noteq> TypingOff) (timers st)
            @ [\<lparr>timer_id = nextTimer st, due = clock st + 1000, callback = TypingOff\<rparr>]"
    unfolding input_listener_timers typing_timers_filter [OF inv] ..
  have 3: "sockets (input_listener E st) =
            sockets (if \<not> isTyping st \<and> ws_open st
                     then ws_send st (JSON_stringify E (JObj
                            [(lit ''type'', JStr (lit ''typing'')), (lit ''username'', JStr (username st)),
                             (lit ''typing'', JBool True)]))
                     else st)"
    unfolding input_listener_sockets by (simp add: sendTypingStatus_sockets)
  have 4: "clock st \<le> due t
            \<and> (clock st < due t \<longrightarrow> fire_timer E (timer_id t) st = st)
            \<and> (clock st = due t \<longrightarrow>
                 \<not> isTyping (fire_timer E (timer_id t) st)
                 \<and> timers (fire_timer E (timer_id t) st) = filter (\<lambda>u. callback u \<noteq> TypingOff) (timers st)
                 \<and> sockets (fire_timer E (timer_id t) st) =
                     sockets (if ws_open st
                              then ws_send st (JSON_stringify E (JObj
                                     [(lit ''type'', JStr (lit ''typing'')), (lit ''username'', JStr (username st)),
                                      (lit ''typing'', JBool False)]))
                              else st))"
    if t: "t \<in> set (timers st)" and c: "callback t = TypingOff" for t
  proof -
    let ?s = "st\<lparr>timers := filter (\<lambda>u. callback u \<noteq> TypingOff) (timers st)\<rparr>"
    have f: "fire_timer E (timer_id t) st =
               (if clock st = due t then sendTypingStatus E False (?s\<lparr>isTyping := False\<rparr>) else st)"
      using fire_typing_timer [OF inv t c, of E] by (simp add: typing_timeout_def)
    have o: "ws_open ?s = ws_open st" by (rule ws_open_cong) simp_all
    have w: "sockets (ws_send ?s x) = sockets (ws_send st x)" for x
      by (simp add: ws_send_def split: option.splits)
    have le: "clock st \<le> due t" using timers_invD(7) [OF inv] t by blast
    show ?thesis unfolding f using le by (simp add: sendTypingStatus_sockets o w)
  qed
  from 1 2 3 4 show ?thesis by simp
qed

text \<open>
  After joining on the example page, a keystroke leaves the typing timer 1, due at 1000;
  when it runs, 1000 ms later, the flag is reset.
\<close>

theorem typing_debounce_witness:
  "reachable example_env (run example_env example_page joined)
   \<and> timers (input_listener example_env (run example_env example_page joined))
       = [\<lparr>timer_id = 1, due = 1000, callback = TypingOff\<rparr>]
   \<and> isTyping (input_listener example_env (run example_env example_page joined))
   \<and> \<not> isTyping (fire_timer example_env 1
         (elapse 1000 (input_listener example_env (run example_env example_page joined))))"
proof -
  let ?S = "run example_env example_page joined"
  let ?T = "elapse 1000 (input_listener example_env ?S)"
  let ?t = "\<lparr>timer_id = 1, due = 1000, callback = TypingOff\<rparr>"
  have r: "reachable example_env ?S"
    using reachable.start [OF initial_example_page] by (rule reachable_run)
  have v: "timers ?S = []" "nextTimer ?S = 1" "clock ?S = 0" by code_simp+
  have r': "reachable example_env ?T"
  proof -
    have "run example_env ?S [Input [], Elapse 1000] = ?T" by code_simp
    then show ?thesis using reachable_run [OF r, of "[Input [], Elapse 1000]"] by simp
  qed
  have ts: "timers (input_listener example_env ?S) = [?t]"
    using typing_debounce [OF r] v by simp
  have m: "?t \<in> set (timers ?T)" using ts by simp
  have ck: "clock ?T = due ?t" by code_simp
  have "\<not> isTyping (fire_timer example_env (timer_id ?t) ?T)"
    using typing_debounce [OF r'] m ck by fastforce
  then show ?thesis using r ts typing_debounce [OF r] by simp
qed

subsection \<open>C5: the outbound frames\<close>

text \<open>
  Claim C5. In every reachable state, each frame handed to a socket is the JSON text of
  an object tagged by \<open>type\<close>: a \<open>join\<close> with \<open>username\<close> and \<open>timestamp\<close>, a \<open>message\<close>
  with \<open>username\<close>, \<open>content\<close> and \<open>timestamp\<close>, or a \<open>typing\<close> with \<open>username\<close> and a
  boolean \<open>typing\<close>. On an open socket \<open>joinChat\<close> with a username sends the first,
  \<open>sendMessage\<close> with a text sends the second, followed by a \<open>typing: false\<close> if the
  typing flag was set, and \<open>sendTypingStatus\<close> sends the third.
\<close>

theorem outbound_frames_tagged:
  assumes "reachable E st"
  shows "(\<forall>s \<in> set (sockets st). \<forall>f \<in> set (sent s). outbound E f)
       \<and> (ws st = Some i \<and> ws_open st \<and> trim (usernameInput_value st) \<noteq> [] \<longrightarrow>
            sent (sockets (joinChat E st) ! i) =
              sent (sockets st ! i) @ [JSON_stringify E (JObj
                [(lit ''type'', JStr (lit ''join'')),
                 (lit ''username'', JStr (trim (usernameInput_value st))),
                 (lit ''timestamp'', JStr (toISOString E (clock st)))])])
       \<and> (ws st = Some i \<and> ws_open st \<and> trim (messageInput_value st) \<noteq> [] \<longrightarrow>
            sent (sockets (sendMessage E st) ! i) =
              sent (sockets st ! i)
              @ [JSON_stringify E (JObj
                   [(lit ''type'', JStr (lit ''message'')), (lit ''username'', JStr (username st)),
                    (lit ''content'', JStr (trim (messageInput_value st))),
                    (lit ''timestamp'', JStr (toISOString E (clock st)))])]
              @ (if isTyping st
                 then [JSON_stringify E (JObj
                        [(lit ''type'', JStr (lit ''typing'')), (lit ''username'', JStr (username st)),
                         (lit ''typing'', JBool False)])]
                 else []))
       \<and> (ws st = Some i \<and> ws_open st \<longrightarrow>
            sent (sockets (sendTypingStatus E typing st) ! i) =
              sent (sockets st ! i) @ [JSON_stringify E (JObj
                [(lit ''type'', JStr (lit ''typing'')), (lit ''username'', JStr (username st)),
                 (lit ''typing'', JBool typing)])])"
proof -
  have "frames_ok E st" using assms by (rule reachable_frames_ok)
  then have "\<forall>s \<in> set (sockets st). \<forall>f \<in> set (sent s). outbound E f"
    by (simp add: frames_ok_def)
  then show ?thesis
    using joinChat_sent [of st i E] sendMessage_sent [of st i E] sendTypingStatus_sent [of st i E typing]
    by blast
qed

text \<open>
  After joining on the example page, the one frame sent is the \<open>join\<close> of \<open>bob\<close>.
\<close>

theorem outbound_frames_tagged_witness:
  "reachable example_env (run example_env example_page joined)
   \<and> sent (sockets (run example_env example_page joined) ! 0)
       = [JSON_stringify example_env (JObj
            [(lit ''type'', JStr (lit ''join'')), (lit ''username'', JStr (lit ''bob'')),
             (lit ''timestamp'', JStr [])])]
   \<and> outbound example_env (JSON_stringify example_env (JObj
            [(lit ''type'', JStr (lit ''join'')), (lit ''username'', JStr (lit ''bob'')),
             (lit ''timestamp'', JStr [])]))"
proof -
  let ?S = "run example_env example_page joined"
  let ?j = "JSON_stringify example_env (JObj
            [(lit ''type'', JStr (lit ''join'')), (lit ''username'', JStr (lit ''bob'')),
             (lit ''timestamp'', JStr [])])"
  have r: "reachable example_env ?S"
    using reachable.start [OF initial_example_page] by (rule reachable_run)
  have n: "length (sockets ?S) = 1" by code_simp
  have s: "sent (sockets ?S ! 0) = [?j]" by code_simp
  have "sockets ?S ! 0 \<in> set (sockets ?S)" using n by simp
  then have "\<forall>f \<in> set (sent (sockets ?S ! 0)). outbound example_env f"
    using outbound_frames_tagged [OF r] by blast
  then have "outbound example_env ?j" unfolding s by simp
  with r s show ?thesis by simp
qed

subsection \<open>C6: malformed inbound frames\<close>

text \<open>
  Claim C6. The handler of inbound frames has no guard: a frame whose text does not parse
  makes it throw a SyntaxError; the frame \<open>null\<close>, which does parse, makes it throw a
  TypeError when the dispatcher reads \<open>data.type\<close>; and so does a \<open>join\<close> frame whose
  username is an object with a property named \<open>toString\<close>, when the template literal
  converts it. On an open socket the message event is this handler, and when it throws
  the page stays as it was.
\<close>

theorem malformed_frame_raises:
  "(JSON_parse E frame = None \<longrightarrow> ws_onmessage E frame st = Inl SyntaxError)
   \<and> (JSON_parse E frame = Some JNull \<longrightarrow> ws_onmessage E frame st = Inl TypeError)
   \<and> (JSON_parse E frame = Some (JObj [(lit ''type'', JStr (lit ''join'')),
                                        (lit ''username'', JObj [(lit ''toString'', v)])]) \<longrightarrow>
        ws_onmessage E frame st = Inl TypeError)
   \<and> (i < length (sockets st) \<and> readyState (sockets st ! i) = OPEN \<longrightarrow>
        step E st (Message i frame) = ws_onmessage E frame st)
   \<and> (step E st (Message i frame) = Inl e \<longrightarrow> run E st [Message i frame] = st)"
  by (simp add: ws_onmessage_def handleMessage_def ToString_def)

text \<open>
  After joining on the example page: \<open>{type:\<close> does not parse in the example
  environment, and \<open>null\<close> does.
\<close>

theorem malformed_frame_raises_witness:
  "JSON_parse example_env (lit ''{type:'') = None
   \<and> step example_env (run example_env example_page joined) (Message 0 (lit ''{type:''))
       = Inl SyntaxError
   \<and> JSON_parse example_env (lit ''null'') = Some JNull
   \<and> step example_env (run example_env example_page joined) (Message 0 (lit ''null''))
       = Inl TypeError"
proof -
  let ?S = "run example_env example_page joined"
  have 1: "JSON_parse example_env (lit ''{type:'') = None" by (simp add: example_env_def)
  have 2: "JSON_parse example_env (lit ''null'') = Some JNull" by (simp add: example_env_def)
  have o: "0 < length (sockets ?S) \<and> readyState (sockets ?S ! 0) = OPEN" by code_simp
  show ?thesis
    using malformed_frame_raises [of example_env "lit ''{type:''" ?S JNull 0 SyntaxError]
      malformed_frame_raises [of example_env "lit ''null''" ?S JNull 0 TypeError] 1 2 o
    by simp
qed

subsection \<open>C7: nothing is queued while disconnected\<close>

text \<open>
  Claim C7. While the socket is not open, \<open>sendMessage\<close> and \<open>sendTypingStatus\<close> return
  the state they were given: nothing is handed to a socket and nothing is kept. A key
  press changes nothing, an input event changes no socket, and whatever happens
  afterwards, a reconnect included, happens as if the attempt had not been made.
\<close>

theorem no_queue_when_disconnected:
  assumes "\<not> ws_open st"
  shows "sendMessage E st = st \<and> sendTypingStatus E typing st = st
       \<and> step E st (KeyPress key) = Inr st
       \<and> (\<exists>st'. step E st (Input s) = Inr st' \<and> sockets st' = sockets st)
       \<and> run E (sendMessage E st) evs = run E st evs
       \<and> run E (sendTypingStatus E typing st) evs = run E st evs"
proof -
  have "(keypress_listener E key ^^ messageInput_listeners st) st = st"
    using assms by (intro funpow_fixed keypress_closed)
  then show ?thesis
    using assms by (simp add: sendMessage_closed sendTypingStatus_closed input_event_closed)
qed

text \<open>
  The user has joined, the socket has closed and the message field holds \<open>hello\<close>: the
  attempt to send leaves the state as it was, and once the reconnect timer has run and
  the new socket has opened, that socket has been handed nothing.
\<close>

theorem no_queue_when_disconnected_witness:
  "\<not> ws_open (run example_env example_page (joined @ [Closed 0 False, Input (lit ''hello'')]))
   \<and> sendMessage example_env (run example_env example_page (joined @ [Closed 0 False, Input (lit ''hello'')]))
       = run example_env example_page (joined @ [Closed 0 False, Input (lit ''hello'')])
   \<and> sent (sockets (run example_env
          (sendMessage example_env
            (run example_env example_page (joined @ [Closed 0 False, Input (lit ''hello'')])))
          [Elapse 1000, Timeout 2, Elapse 2000, Timeout 1, Opened 1]) ! 1) = []"
proof -
  let ?S = "run example_env example_page (joined @ [Closed 0 False, Input (lit ''hello'')])"
  have c: "\<not> ws_open ?S" by code_simp
  let ?evs = "[Elapse 1000, Timeout 2, Elapse 2000, Timeout 1, Opened 1]"
  have e: "sent (sockets (run example_env ?S ?evs) ! 1) = []
           \<and> readyState (sockets (run example_env ?S ?evs) ! 1) = OPEN" by code_simp
  have "sendMessage example_env ?S = ?S
      \<and> run example_env (sendMessage example_env ?S) ?evs = run example_env ?S ?evs"
    using no_queue_when_disconnected [OF c, of example_env True "lit ''Enter''" "lit ''h''" ?evs]
    by blast
  with c e show ?thesis by simp
qed

subsection \<open>C8: frames of an unknown type\<close>

text \<open>
  Claim C8. An inbound frame whose \<open>type\<close> is none of \<open>message\<close>, \<open>join\<close>, \<open>leave\<close>,
  \<open>users_count\<close> and \<open>typing\<close> (or is absent) leaves the whole state, page and module
  variables, as it was; unless the frame is \<open>null\<close>, the handler returns normally.
\<close>

theorem unknown_type_no_effect:
  assumes "JSON_parse E frame = Some data"
      and "\<forall>ty. getProp data (lit ''type'') = Inr ty \<longrightarrow>
             ty \<notin> {Some (JStr (lit ''message'')), Some (JStr (lit ''join'')), Some (JStr (lit ''leave'')),
                   Some (JStr (lit ''users_count'')), Some (JStr (lit ''typing''))}"
  shows "run E st [Message i frame] = st \<and> (data \<noteq> JNull \<longrightarrow> ws_onmessage E frame st = Inr st)"
proof -
  have handled: "ws_onmessage E frame st = Inr st" if "data \<noteq> JNull"
  proof -
    from that obtain ty where ty: "getProp data (lit ''type'') = Inr ty"
      using getProp_non_null by blast
    with assms(2) show ?thesis
      using assms(1) by (simp add: ws_onmessage_def handleMessage_def)
  qed
  have "ws_onmessage E frame st = Inl TypeError" if "data = JNull"
    using that assms(1) by (simp add: ws_onmessage_def handleMessage_def)
  with handled have "ws_onmessage E frame st = Inr st \<or> ws_onmessage E frame st = Inl TypeError"
    by blast
  then have "run E st [Message i frame] = st" by auto
  with handled show ?thesis by blast
qed

text \<open>
  The frame \<open>{}\<close>, which has no \<open>type\<close>, arriving after the user has joined.
\<close>

theorem unknown_type_no_effect_witness:
  "JSON_parse example_env (lit ''{}'') = Some (JObj [])
   \<and> run example_env (run example_env example_page joined) [Message 0 (lit ''{}'')]
       = run example_env example_page joined
   \<and> ws_onmessage example_env (lit ''{}'') (run example_env example_page joined)
       = Inr (run example_env example_page joined)"
proof -
  have p: "JSON_parse example_env (lit ''{}'') = Some (JObj [])"
    by (simp add: example_env_def)
  have t: "\<forall>ty. getProp (JObj [] :: nat json) (lit ''type'') = Inr ty \<longrightarrow>
             ty \<notin> {Some (JStr (lit ''message'')), Some (JStr (lit ''join'')), Some (JStr (lit ''leave'')),
                   Some (JStr (lit ''users_count'')), Some (JStr (lit ''typing''))}"
    by simp
  show ?thesis
    using unknown_type_no_effect [OF p t, of "run example_env example_page joined" 0] p by simp
qed

subsection \<open>C9: typing frames of the local user\<close>

text \<open>
  Claim C9. A \<open>typing\<close> frame whose username is the local username changes nothing:
  neither the text nor the classes of the typing indicator, nor anything else.
\<close>

theorem own_typing_frame_ignored:
  assumes "getProp data (lit ''username'') = Inr (Some (JStr (username st)))"
  shows "handleTypingIndicator E data st = Inr st
       \<and> (getProp data (lit ''type'') = Inr (Some (JStr (lit ''typing''))) \<longrightarrow>
            handleMessage E data st = Inr st)"
  using assms by (simp add: handleTypingIndicator_def handleMessage_def)

text \<open>
  The local user is \<open>bob\<close>, and so is the frame's.
\<close>

theorem own_typing_frame_ignored_witness:
  "handleMessage example_env
     (JObj [(lit ''type'', JStr (lit ''typing'')), (lit ''username'', JStr (lit ''bob'')),
            (lit ''typing'', JBool True)])
     (example_page\<lparr>username := lit ''bob''\<rparr>)
   = Inr (example_page\<lparr>username := lit ''bob''\<rparr>)"
proof -
  let ?d = "JObj [(lit ''type'', JStr (lit ''typing'')), (lit ''username'', JStr (lit ''bob'')),
                  (lit ''typing'', JBool True)] :: nat json"
  let ?st = "example_page\<lparr>username := lit ''bob''\<rparr>"
  have u: "getProp ?d (lit ''username'') = Inr (Some (JStr (username ?st)))" by simp
  have t: "getProp ?d (lit ''type'') = Inr (Some (JStr (lit ''typing'')))" by simp
  show ?thesis using own_typing_frame_ignored [OF u, of example_env] t by blast
qed

subsection \<open>C10: system messages interpolate the username verbatim\<close>



end
